theory Spec2Isabelle
  imports Main "HOL-Library.Multiset" "HOL-Library.Sublist"
begin

section \<open>Push requests (pilot/pkg/model/push\_context.go)\<close>

text \<open>
  Modelled from the spec: the type \<open>config.GroupVersionKind\<close> and the constants of
  packages \<open>gvk\<close> and \<open>collections\<close> are not under src. Kinds are drawn from a closed
  set; the kinds that \<open>updateContext\<close> switches on are named, pairwise distinct, and
  every other kind is \<open>OtherKind\<close>.
\<close>

datatype GroupVersionKind =
    ServiceEntry
  | DestinationRuleKind
  | VirtualService
  | GatewayKind
  | Sidecar
  | EnvoyFilter
  | AuthorizationPolicy
  | RequestAuthentication
  | PeerAuthentication
  | K8SServiceApisV1Alpha1Httproutes
  | K8SServiceApisV1Alpha1Tcproutes
  | K8SServiceApisV1Alpha1Gateways
  | K8SServiceApisV1Alpha1Gatewayclasses
  | OtherKind string

text \<open>
  Modelled from the spec: the declaration of \<open>ConfigKey\<close> is not under src; a resource
  identifier is a triple of kind, name and namespace.
\<close>

record ConfigKey =
  Kind :: GroupVersionKind
  Name :: string
  Namespace :: string

type_synonym TriggerReason = string

text \<open>
  \<open>PushRequest\<close>: \<open>ConfigsUpdated\<close> is a \<open>map[ConfigKey]struct{}\<close>, that is a finite set
  of keys (the nil map and the empty map both have length 0 and are the empty set);
  \<open>Push\<close> is a pointer to a snapshot, kept as an optional address; \<open>Start\<close> is an
  instant.
\<close>

record PushRequest =
  Full :: bool
  ConfigsUpdated :: "ConfigKey set"
  Push :: "nat option"
  Start :: int
  Reason :: "TriggerReason list"

text \<open>
  \<open>func (first *PushRequest) Merge(other *PushRequest) *PushRequest\<close>. Both the
  receiver and the argument are pointers that may be nil.
\<close>

fun Merge :: "PushRequest option \<Rightarrow> PushRequest option \<Rightarrow> PushRequest option" where
  "Merge None other = other"
| "Merge (Some first) None = Some first"
| "Merge (Some first) (Some other) =
     Some \<lparr> Full = Full first \<or> Full other,
            ConfigsUpdated =
              (if ConfigsUpdated first \<noteq> {} \<and> ConfigsUpdated other \<noteq> {}
               then ConfigsUpdated first \<union> ConfigsUpdated other
               else {}),
            Push = Push other,
            Start = Start first,
            Reason = Reason first @ Reason other \<rparr>"


section \<open>The ack/nack decision of the discovery server (package xds)\<close>

text \<open>
  \<open>discovery.DiscoveryRequest\<close>, with the fields \<open>shouldRespond\<close> reads. The error
  detail is a pointer to a status message and may be nil.
\<close>

record ErrorStatus =
  Code :: int
  ErrorMessage :: string

record DiscoveryRequest =
  TypeUrl :: string
  VersionInfo :: string
  ResponseNonce :: string
  ResourceNames :: "string list"
  ErrorDetail :: "ErrorStatus option"

text \<open>
  Modelled from the spec: the declaration of \<open>model.WatchedResource\<close> is not under src.
  It is the state kept per connection and type URL: the resource names last requested,
  the version and nonce last sent, the version and nonce last acked, the time and the
  size of the last send, with the type URL and the last request that \<open>shouldRespond\<close>
  stores. A composite literal that names only some fields leaves the others at their
  zero values.
\<close>

record WatchedResource =
  wr_TypeUrl :: string
  wr_ResourceNames :: "string list"
  VersionSent :: string
  NonceSent :: string
  VersionAcked :: string
  NonceAcked :: string
  LastSent :: int
  LastSize :: int
  LastRequest :: "DiscoveryRequest option"

definition newWatchedResource :: "DiscoveryRequest \<Rightarrow> WatchedResource" where
  "newWatchedResource request =
     \<lparr> wr_TypeUrl = TypeUrl request,
       wr_ResourceNames = ResourceNames request,
       VersionSent = [], NonceSent = [], VersionAcked = [], NonceAcked = [],
       LastSent = 0, LastSize = 0,
       LastRequest = Some request \<rparr>"

text \<open>
  The connection with its proxy: the proxy's \<open>WatchedResources\<close> is a map from type
  URL to a pointer to the watched resource; a missing key reads as nil.
\<close>

record XdsProxy =
  ID :: string
  WatchedResources :: "string \<rightharpoonup> WatchedResource"

record Connection =
  ConID :: string
  proxy :: XdsProxy

text \<open>
  The server: \<open>InternalGen\<close> is a pointer that may be nil, so only its presence is
  kept. What \<open>shouldRespond\<close> does beyond the connection (two metrics and the nack
  callback) is returned as the list of calls it made, in order.
\<close>

record DiscoveryServer =
  InternalGen :: bool

datatype XdsEffect =
    IncrementXDSRejects string string int
  | OnNack string DiscoveryRequest
  | XdsExpiredNonceIncrement

text \<open>
  \<open>listEqualUnordered\<close>: the length test, then the map \<open>first\<close> holding the elements
  of \<open>a\<close> as keys, then the loop over \<open>b\<close> that returns false at the first element
  missing from \<open>first\<close>.
\<close>

fun allFound :: "string set \<Rightarrow> string list \<Rightarrow> bool" where
  "allFound first [] = True"
| "allFound first (c # cs) = (if c \<in> first then allFound first cs else False)"

definition listEqualUnordered :: "string list \<Rightarrow> string list \<Rightarrow> bool" where
  "listEqualUnordered a b =
     (if length a \<noteq> length b then False else allFound (set a) b)"

text \<open>
  \<open>shouldRespond\<close> returns its boolean, the connection as it left it, and the calls
  it made. The branches are those of the source, in the source's order: error detail
  set; empty response nonce; no previous watched resource; nonce mismatch; nonce match.
\<close>

definition shouldRespond ::
  "DiscoveryServer \<Rightarrow> Connection \<Rightarrow> DiscoveryRequest \<Rightarrow> bool \<times> Connection \<times> XdsEffect list" where
  "shouldRespond s con request =
     (case ErrorDetail request of
        Some detail \<Rightarrow>
          (False, con,
           IncrementXDSRejects (TypeUrl request) (ID (proxy con)) (Code detail) #
           (if InternalGen s then [OnNack (ID (proxy con)) request] else []))
      | None \<Rightarrow>
          if ResponseNonce request = [] then
            (True,
             con\<lparr>proxy := (proxy con)\<lparr>WatchedResources :=
                (WatchedResources (proxy con))(TypeUrl request \<mapsto> newWatchedResource request)\<rparr>\<rparr>,
             [])
          else
            (case WatchedResources (proxy con) (TypeUrl request) of
               None \<Rightarrow>
                 (True,
                  con\<lparr>proxy := (proxy con)\<lparr>WatchedResources :=
                     (WatchedResources (proxy con))(TypeUrl request \<mapsto> newWatchedResource request)\<rparr>\<rparr>,
                  [])
             | Some previousInfo \<Rightarrow>
                 if ResponseNonce request \<noteq> NonceSent previousInfo then
                   (False, con, [XdsExpiredNonceIncrement])
                 else
                   (let previousResources = wr_ResourceNames previousInfo;
                        con' = con\<lparr>proxy := (proxy con)\<lparr>WatchedResources :=
                          (WatchedResources (proxy con))(TypeUrl request \<mapsto>
                             previousInfo\<lparr> VersionAcked := VersionInfo request,
                                            NonceAcked := ResponseNonce request,
                                            wr_ResourceNames := ResourceNames request,
                                            LastRequest := Some request \<rparr>)\<rparr>\<rparr>
                    in if listEqualUnordered previousResources (ResourceNames request)
                       then (False, con', [])
                       else (True, con', []))))"


subsection \<open>A connection and a request used as concrete inputs\<close>

definition exWatched :: WatchedResource where
  "exWatched = \<lparr> wr_TypeUrl = ''cds'', wr_ResourceNames = [''a'', ''b''],
     VersionSent = ''v1'', NonceSent = ''n1'', VersionAcked = [], NonceAcked = [],
     LastSent = 0, LastSize = 0, LastRequest = None \<rparr>"

definition exConnection :: "string list \<Rightarrow> Connection" where
  "exConnection names = \<lparr> ConID = ''sidecar~10.0.0.1-1'',
     proxy = \<lparr> ID = ''sidecar~10.0.0.1'',
               WatchedResources = [''cds'' \<mapsto> exWatched\<lparr>wr_ResourceNames := names\<rparr>] \<rparr> \<rparr>"

definition exRequest :: "string list \<Rightarrow> ErrorStatus option \<Rightarrow> DiscoveryRequest" where
  "exRequest names detail = \<lparr> TypeUrl = ''cds'', VersionInfo = ''v1'', ResponseNonce = ''n1'',
     ResourceNames = names, ErrorDetail = detail \<rparr>"


section \<open>Distribution status (package status)\<close>

text \<open>
  \<open>Progress\<close> counts instances with Go's \<open>int\<close>; \<open>ReconcileStatuses\<close> only compares
  and prints the two counts.
\<close>

record Progress =
  AckedInstances :: int
  TotalInstances :: int

text \<open>
  \<open>v1alpha1.IstioCondition\<close> and \<open>v1alpha1.IstioStatus\<close>. The conditions of a status
  are a slice of pointers, so an entry may be nil; timestamps are instants.
\<close>

record IstioCondition =
  Type :: string
  Status :: string
  LastProbeTime :: int
  LastTransitionTime :: int
  Message :: string

record IstioStatus =
  Conditions :: "IstioCondition option list"

datatype panic = NilPointerDereference

text \<open>
  The verb \<open>%d\<close> of \<open>fmt.Sprintf\<close>: the decimal digits, with a minus sign in front of
  a negative number.
\<close>

fun formatNat :: "nat \<Rightarrow> string" where
  "formatNat n =
     (if n < 10 then [''0123456789'' ! n]
      else formatNat (n div 10) @ [''0123456789'' ! (n mod 10)])"

declare formatNat.simps [simp del]

definition formatInt :: "int \<Rightarrow> string" where
  "formatInt i = (if i < 0 then CHR ''-'' # formatNat (nat (- i)) else formatNat (nat i))"

definition boolToConditionStatus :: "bool \<Rightarrow> string" where
  "boolToConditionStatus b = (if b then ''True'' else ''False'')"

text \<open>
  The loop of \<open>ReconcileStatuses\<close> over the current conditions: it reads \<open>c.Type\<close> of
  every entry (a nil entry panics), keeps the last entry whose type is
  \<open>Reconciled\<close> and its index, and does not stop at the first one.
\<close>

fun findReconciled ::
  "IstioCondition option list \<Rightarrow> nat \<Rightarrow> IstioCondition option \<times> int
     \<Rightarrow> panic + IstioCondition option \<times> int" where
  "findReconciled [] i found = Inr found"
| "findReconciled (None # cs) i found = Inl NilPointerDereference"
| "findReconciled (Some c # cs) i found =
     findReconciled cs (Suc i) (if Type c = ''Reconciled'' then (Some c, int i) else found)"

text \<open>
  The condition computed from the desired progress; \<open>t1\<close> and \<open>t2\<close> are the two
  readings of \<open>types.TimestampNow()\<close>.
\<close>

definition desiredCondition :: "Progress \<Rightarrow> int \<Rightarrow> int \<Rightarrow> IstioCondition" where
  "desiredCondition desired t1 t2 =
     \<lparr> Type = ''Reconciled'',
       Status = boolToConditionStatus (AckedInstances desired = TotalInstances desired),
       LastProbeTime = t1,
       LastTransitionTime = t2,
       Message = formatInt (AckedInstances desired) @ ''/'' @
                 formatInt (TotalInstances desired) @ '' proxies up to date.'' \<rparr>"

text \<open>
  \<open>ReconcileStatuses(current, desired, clock)\<close>. \<open>GetTypedStatus\<close> converts the
  untyped status through JSON and is taken as a parameter: it gives \<open>None\<close> when the
  conversion returns an error. The \<open>clock\<close> argument is not used by the source.
\<close>

definition ReconcileStatuses ::
  "('raw \<Rightarrow> IstioStatus option) \<Rightarrow> 'raw \<Rightarrow> Progress \<Rightarrow> int \<Rightarrow> int
     \<Rightarrow> panic + bool \<times> IstioStatus" where
  "ReconcileStatuses GetTypedStatus current desired t1 t2 =
     (let desiredCond = desiredCondition desired t1 t2 in
      case GetTypedStatus current of
        None \<Rightarrow> Inr (True, \<lparr> Conditions = [Some desiredCond] \<rparr>)
      | Some currentStatus \<Rightarrow>
          (case findReconciled (Conditions currentStatus) 0 (None, - 1) of
             Inl p \<Rightarrow> Inl p
           | Inr (currentCondition, conditionIndex) \<Rightarrow>
               (let needsReconcile =
                      (case currentCondition of
                         None \<Rightarrow> True
                       | Some cc \<Rightarrow> Message cc \<noteq> Message desiredCond
                                    \<or> Status cc \<noteq> Status desiredCond)
                in if conditionIndex > - 1
                   then Inr (needsReconcile,
                             currentStatus\<lparr>Conditions :=
                               (Conditions currentStatus)[nat conditionIndex := Some desiredCond]\<rparr>)
                   else Inr (needsReconcile,
                             currentStatus\<lparr>Conditions :=
                               Conditions currentStatus @ [Some desiredCond]\<rparr>))))"


subsection \<open>A current condition used as concrete input\<close>

definition exCondition :: IstioCondition where
  "exCondition = \<lparr> Type = ''Reconciled'', Status = ''False'', LastProbeTime = 0,
     LastTransitionTime = 0, Message = ''3/10 proxies up to date.'' \<rparr>"


section \<open>The push context (pilot/pkg/model/push\_context.go)\<close>

type_synonym hostname = string

type_synonym visibility = string

text \<open>
  Modelled from the spec: package \<open>visibility\<close> is not under src. Its three
  distinguished instances are the spec's private, public and none, which the comments
  of \<open>initServiceRegistry\<close> write \<open>.\<close>, \<open>*\<close> and \<open>~\<close>.
\<close>

definition visibility_Private :: visibility where "visibility_Private = ''.''"

definition visibility_Public :: visibility where "visibility_Public = ''*''"

definition visibility_None :: visibility where "visibility_None = ''~''"

text \<open>
  A \<open>map[visibility.Instance]bool\<close> is used as a set: every writer stores \<open>true\<close>. It
  is kept as the list of its keys, in the order in which a \<open>range\<close> loop visits them;
  its length is the number of keys and \<open>m[k]\<close> is membership.
\<close>

record ServicePort =
  Port :: int
  Protocol :: string

record ServiceAttributes =
  attr_Namespace :: string
  ExportTo :: "visibility list"

record Service =
  Hostname :: hostname
  Attributes :: ServiceAttributes
  Ports :: "ServicePort list"
  CreationTime :: int

text \<open>A \<open>*config.Config\<close>, known by the namespace and the name of its metadata.\<close>

datatype Config = Config string string

text \<open>
  \<open>processedDestRules\<close>: the hosts, the export map of each host (a missing host reads
  as the nil map, of length 0) and the rule of each host (a missing host reads as nil).
\<close>

record processedDestRules =
  hosts :: "hostname list"
  exportTo :: "hostname \<Rightarrow> visibility list"
  destRule :: "hostname \<rightharpoonup> Config"

text \<open>
  An index that the model does not look into is a number that stands for its content;
  0 is the empty index that \<open>NewPushContext\<close> allocates (or nil).
\<close>

type_synonym opaque = nat

record MeshConfig =
  RootNamespace :: string
  DefaultServiceExportTo :: "string list option"
  DefaultVirtualServiceExportTo :: "string list option"
  DefaultDestinationRuleExportTo :: "string list option"

text \<open>
  \<open>PushContext\<close>. A \<open>map[string][]*Service\<close> is a function to lists: a missing key reads
  as the nil slice, and \<open>append\<close> to it gives the one-element list. \<open>Mesh\<close> is taken to
  be non-nil; \<open>Networks\<close>, \<open>ServiceDiscovery\<close> and \<open>IstioConfigStore\<close>, which point to the
  environment, and the proxy status map are left out.
\<close>

record PushContext =
  defaultServiceExportTo :: "visibility list"
  defaultVirtualServiceExportTo :: "visibility list"
  defaultDestinationRuleExportTo :: "visibility list"
  privateServicesByNamespace :: "string \<Rightarrow> Service list"
  publicServices :: "Service list"
  servicesExportedToNamespace :: "string \<Rightarrow> Service list"
  ServiceByHostnameAndNamespace :: "hostname \<rightharpoonup> (string \<rightharpoonup> Service)"
  ServiceByHostname :: "hostname \<rightharpoonup> Service"
  ServiceAccounts :: "hostname \<rightharpoonup> (int \<rightharpoonup> string list)"
  virtualServicesExportedToNamespaceByGateway :: opaque
  privateVirtualServicesByNamespaceAndGateway :: opaque
  publicVirtualServicesByGateway :: opaque
  namespaceLocalDestRules :: "string \<rightharpoonup> processedDestRules"
  exportedDestRulesByNamespace :: "string \<rightharpoonup> processedDestRules"
  rootNamespaceLocalDestRules :: "processedDestRules option"
  clusterLocalHosts :: "hostname list"
  sidecarsByNamespace :: opaque
  envoyFiltersByNamespace :: opaque
  gatewaysByNamespace :: opaque
  allGateways :: opaque
  AuthzPolicies :: opaque
  Mesh :: MeshConfig
  AuthnBetaPolicies :: opaque
  initDone :: bool
  Version :: string
  networkGateways :: opaque

text \<open>
  \<open>model.Proxy\<close>, the fields the lookups read. A \<open>SidecarScope\<close> is known by what its
  methods \<open>DestinationRule\<close> and \<open>Services\<close> return.
\<close>

datatype NodeType = SidecarProxy | Router

record SidecarScope =
  scopeDestinationRule :: "hostname \<Rightarrow> Config option"
  scopeServices :: "Service list"

record Proxy =
  ConfigNamespace :: string
  SidecarScope :: "SidecarScope option"
  proxy_Type :: NodeType

text \<open>
  \<open>Services(proxy)\<close> for a non-nil proxy, as \<open>DestinationRule\<close> calls it (it has read
  \<open>proxy.SidecarScope\<close> before).
\<close>

definition Services :: "PushContext \<Rightarrow> Proxy \<Rightarrow> Service list" where
  "Services ps proxy' =
     (case SidecarScope proxy' of
        Some sc \<Rightarrow>
          if proxy_Type proxy' = SidecarProxy then scopeServices sc
          else privateServicesByNamespace ps (ConfigNamespace proxy') @
               servicesExportedToNamespace ps (ConfigNamespace proxy') @
               publicServices ps
      | None \<Rightarrow>
          privateServicesByNamespace ps (ConfigNamespace proxy') @
          servicesExportedToNamespace ps (ConfigNamespace proxy') @
          publicServices ps)"

text \<open>
  \<open>getExportedDestinationRuleFromNamespace\<close>. \<open>MostSpecificHostMatch\<close> is not under src
  and is a parameter \<open>msm\<close>: it gives the matching host of the list, or \<open>None\<close> when
  its second result is false.
\<close>

definition getExportedDestinationRuleFromNamespace ::
  "(hostname \<Rightarrow> hostname list \<Rightarrow> hostname option) \<Rightarrow> PushContext
     \<Rightarrow> string \<Rightarrow> hostname \<Rightarrow> string \<Rightarrow> Config option" where
  "getExportedDestinationRuleFromNamespace msm ps owningNamespace hostname' clientNamespace =
     (case exportedDestRulesByNamespace ps owningNamespace of
        None \<Rightarrow> None
      | Some rules \<Rightarrow>
          (case msm hostname' (hosts rules) of
             None \<Rightarrow> None
           | Some specificHostname \<Rightarrow>
               (let exportToMap = exportTo rules specificHostname
                in if exportToMap = [] \<or> visibility_Public \<in> set exportToMap
                      \<or> clientNamespace \<in> set exportToMap
                   then destRule rules specificHostname
                   else None)))"

text \<open>
  The loop of \<open>DestinationRule\<close> that finds the namespace of a service built without
  attributes: the namespace of the first visible service with the same hostname and a
  non-empty namespace, or the empty string.
\<close>

fun findServiceNamespace :: "hostname \<Rightarrow> Service list \<Rightarrow> string" where
  "findServiceNamespace h [] = []"
| "findServiceNamespace h (svc # svcs) =
     (if h = Hostname svc \<and> attr_Namespace (Attributes svc) \<noteq> []
      then attr_Namespace (Attributes svc)
      else findServiceNamespace h svcs)"

definition serviceNamespace :: "PushContext \<Rightarrow> Proxy \<Rightarrow> Service \<Rightarrow> string" where
  "serviceNamespace ps proxy' service =
     (if attr_Namespace (Attributes service) = []
      then findServiceNamespace (Hostname service) (Services ps proxy')
      else attr_Namespace (Attributes service))"

text \<open>
  \<open>DestinationRule(proxy, service)\<close>. The result is the returned pointer, or the panic
  of reading \<open>ps.rootNamespaceLocalDestRules.hosts\<close> through a nil pointer. Steps 2 to 4
  of the source, which run when step 1 has not returned, are
  \<open>exportedDestinationRule\<close>.
\<close>

definition exportedDestinationRule ::
  "(hostname \<Rightarrow> hostname list \<Rightarrow> hostname option) \<Rightarrow> PushContext \<Rightarrow> Proxy
     \<Rightarrow> Service \<Rightarrow> Config option" where
  "exportedDestinationRule msm ps proxy' service =
     (let svcNs = serviceNamespace ps proxy' service
      in case (if svcNs \<noteq> []
               then getExportedDestinationRuleFromNamespace msm ps svcNs
                      (Hostname service) (ConfigNamespace proxy')
               else None) of
           Some out \<Rightarrow> Some out
         | None \<Rightarrow>
             (case getExportedDestinationRuleFromNamespace msm ps
                     (RootNamespace (Mesh ps)) (Hostname service) (ConfigNamespace proxy') of
                Some out \<Rightarrow> Some out
              | None \<Rightarrow> None))"

definition DestinationRule ::
  "(hostname \<Rightarrow> hostname list \<Rightarrow> hostname option) \<Rightarrow> PushContext \<Rightarrow> Proxy
     \<Rightarrow> Service option \<Rightarrow> panic + Config option" where
  "DestinationRule msm ps proxy' service =
     (case service of
        None \<Rightarrow> Inr None
      | Some svc \<Rightarrow>
          (case (SidecarScope proxy', proxy_Type proxy') of
             (Some sc, SidecarProxy) \<Rightarrow> Inr (scopeDestinationRule sc (Hostname svc))
           | _ \<Rightarrow>
               if ConfigNamespace proxy' \<noteq> RootNamespace (Mesh ps) then
                 (case namespaceLocalDestRules ps (ConfigNamespace proxy') of
                    None \<Rightarrow> Inr (exportedDestinationRule msm ps proxy' svc)
                  | Some rules \<Rightarrow>
                      (case msm (Hostname svc) (hosts rules) of
                         Some hostname' \<Rightarrow> Inr (destRule rules hostname')
                       | None \<Rightarrow> Inr (exportedDestinationRule msm ps proxy' svc)))
               else
                 (case rootNamespaceLocalDestRules ps of
                    None \<Rightarrow> Inl NilPointerDereference
                  | Some rules \<Rightarrow>
                      (case msm (Hostname svc) (hosts rules) of
                         Some hostname' \<Rightarrow> Inr (destRule rules hostname')
                       | None \<Rightarrow> Inr (exportedDestinationRule msm ps proxy' svc)))))"

text \<open>
  The search order of the lookup contract, written as the specification words it: four
  stages, each giving a hit or nothing, and the first hit is the answer. A hit of a
  local stage is the most specific host match among the hosts of the bucket; a hit of
  an exported stage is a rule of the most specific host whose export set is empty,
  contains public or contains the proxy's namespace.
\<close>

fun firstHit :: "'a option list \<Rightarrow> 'a option" where
  "firstHit [] = None"
| "firstHit (Some x # stages) = Some x"
| "firstHit (None # stages) = firstHit stages"

definition localStage ::
  "(hostname \<Rightarrow> hostname list \<Rightarrow> hostname option) \<Rightarrow> processedDestRules option
     \<Rightarrow> hostname \<Rightarrow> Config option option" where
  "localStage msm bucket h =
     (case bucket of
        None \<Rightarrow> None
      | Some rules \<Rightarrow> map_option (destRule rules) (msm h (hosts rules)))"

definition exportedStage ::
  "(hostname \<Rightarrow> hostname list \<Rightarrow> hostname option) \<Rightarrow> processedDestRules option
     \<Rightarrow> hostname \<Rightarrow> string \<Rightarrow> Config option option" where
  "exportedStage msm bucket h clientNamespace =
     (case bucket of
        None \<Rightarrow> None
      | Some rules \<Rightarrow>
          (case msm h (hosts rules) of
             None \<Rightarrow> None
           | Some m \<Rightarrow>
               if exportTo rules m = [] \<or> visibility_Public \<in> set (exportTo rules m)
                  \<or> clientNamespace \<in> set (exportTo rules m)
               then map_option Some (destRule rules m)
               else None))"

definition DestinationRule_stages ::
  "(hostname \<Rightarrow> hostname list \<Rightarrow> hostname option) \<Rightarrow> PushContext \<Rightarrow> Proxy
     \<Rightarrow> Service \<Rightarrow> Config option option list" where
  "DestinationRule_stages msm ps proxy' svc =
     [ if ConfigNamespace proxy' \<noteq> RootNamespace (Mesh ps)
       then localStage msm (namespaceLocalDestRules ps (ConfigNamespace proxy')) (Hostname svc)
       else None,
       if ConfigNamespace proxy' = RootNamespace (Mesh ps)
       then localStage msm (rootNamespaceLocalDestRules ps) (Hostname svc)
       else None,
       if serviceNamespace ps proxy' svc \<noteq> []
       then exportedStage msm (exportedDestRulesByNamespace ps (serviceNamespace ps proxy' svc))
              (Hostname svc) (ConfigNamespace proxy')
       else None,
       exportedStage msm (exportedDestRulesByNamespace ps (RootNamespace (Mesh ps)))
         (Hostname svc) (ConfigNamespace proxy') ]"

definition DestinationRule_spec ::
  "(hostname \<Rightarrow> hostname list \<Rightarrow> hostname option) \<Rightarrow> PushContext \<Rightarrow> Proxy
     \<Rightarrow> Service \<Rightarrow> Config option" where
  "DestinationRule_spec msm ps proxy' svc =
     (case firstHit (DestinationRule_stages msm ps proxy' svc) of
        Some r \<Rightarrow> r
      | None \<Rightarrow> None)"

text \<open>An error value returned by a store or a registry.\<close>

datatype error = Error string

text \<open>
  \<open>NewPushContext()\<close>: empty maps and slices, everything else at its zero value.
\<close>

definition NewPushContext :: PushContext where
  "NewPushContext =
     \<lparr> defaultServiceExportTo = [],
       defaultVirtualServiceExportTo = [],
       defaultDestinationRuleExportTo = [],
       privateServicesByNamespace = (\<lambda>ns. []),
       publicServices = [],
       servicesExportedToNamespace = (\<lambda>ns. []),
       ServiceByHostnameAndNamespace = Map.empty,
       ServiceByHostname = Map.empty,
       ServiceAccounts = Map.empty,
       virtualServicesExportedToNamespaceByGateway = 0,
       privateVirtualServicesByNamespaceAndGateway = 0,
       publicVirtualServicesByGateway = 0,
       namespaceLocalDestRules = Map.empty,
       exportedDestRulesByNamespace = Map.empty,
       rootNamespaceLocalDestRules = None,
       clusterLocalHosts = [],
       sidecarsByNamespace = 0,
       envoyFiltersByNamespace = 0,
       gatewaysByNamespace = 0,
       allGateways = 0,
       AuthzPolicies = 0,
       Mesh = \<lparr> RootNamespace = [], DefaultServiceExportTo = None,
                DefaultVirtualServiceExportTo = None,
                DefaultDestinationRuleExportTo = None \<rparr>,
       AuthnBetaPolicies = 0,
       initDone = False,
       Version = [],
       networkGateways = 0 \<rparr>"

text \<open>
  The environment, as far as the build of a snapshot reads it. \<open>envServices\<close> is the
  result of \<open>env.Services()\<close>. The passes other than the service registry call code
  that is not under src (\<open>mergeDestinationRule\<close>, \<open>ConvertToSidecarScope\<close>,
  \<open>initAuthenticationPolicies\<close>, \<open>GetAuthorizationPolicies\<close> and others): what each of
  them builds is a parameter, a function of the snapshot under construction where the
  pass reads it, with the error of its store call.
\<close>

record Environment =
  envMesh :: MeshConfig
  envVersion :: string
  envServices :: "error + Service list"
  GetIstioServiceAccounts :: "Service \<Rightarrow> int list \<Rightarrow> string list"
  listVirtualServices :: "PushContext \<Rightarrow> error + opaque \<times> opaque \<times> opaque"
  listDestinationRules ::
    "PushContext \<Rightarrow> error + (string \<rightharpoonup> processedDestRules) \<times>
       (string \<rightharpoonup> processedDestRules) \<times> processedDestRules"
  initAuthenticationPolicies :: "opaque \<times> error option"
  GetAuthorizationPolicies :: "opaque \<times> error option"
  listEnvoyFilters :: "error + opaque"
  listGateways :: "error + opaque \<times> opaque"
  listSidecars :: "PushContext \<Rightarrow> error + opaque"
  meshNetworkGateways :: "opaque option"
  envClusterLocalHosts :: "MeshConfig \<Rightarrow> hostname list"

text \<open>
  \<open>sortServicesByCreationTime\<close>: \<open>sort.SliceStable\<close> by creation time, ascending.
\<close>

definition sortServicesByCreationTime :: "Service list \<Rightarrow> Service list" where
  "sortServicesByCreationTime services = sort_key CreationTime services"

text \<open>
  The body of the loop of \<open>initServiceRegistry\<close>. \<open>exportToNamespaces\<close> is the inner
  loop over the keys of the service's export map; \<open>indexService\<close> is the tail of the
  body, which the two \<open>continue\<close> statements skip.
\<close>

fun exportToNamespaces :: "Service \<Rightarrow> string \<Rightarrow> visibility list \<Rightarrow> PushContext \<Rightarrow> PushContext" where
  "exportToNamespaces s ns [] ps = ps"
| "exportToNamespaces s ns (exportTo' # rest) ps =
     exportToNamespaces s ns rest
       (if exportTo' = visibility_Private \<or> exportTo' = ns
        then ps\<lparr>privateServicesByNamespace :=
                 (privateServicesByNamespace ps)(ns := privateServicesByNamespace ps ns @ [s])\<rparr>
        else ps\<lparr>servicesExportedToNamespace :=
                 (servicesExportedToNamespace ps)
                   (exportTo' := servicesExportedToNamespace ps exportTo' @ [s])\<rparr>)"

definition indexService :: "Service \<Rightarrow> PushContext \<Rightarrow> PushContext" where
  "indexService s ps =
     ps\<lparr> ServiceByHostnameAndNamespace :=
            (ServiceByHostnameAndNamespace ps)(Hostname s \<mapsto>
               (case ServiceByHostnameAndNamespace ps (Hostname s) of
                  None \<Rightarrow> Map.empty
                | Some byNamespace \<Rightarrow> byNamespace)(attr_Namespace (Attributes s) \<mapsto> s)),
          ServiceByHostname := (ServiceByHostname ps)(Hostname s \<mapsto> s) \<rparr>"

definition registerService :: "Service \<Rightarrow> PushContext \<Rightarrow> PushContext" where
  "registerService s ps =
     (let ns = attr_Namespace (Attributes s) in
      if ExportTo (Attributes s) = [] then
        indexService s
          (if visibility_Private \<in> set (defaultServiceExportTo ps) then
             ps\<lparr>privateServicesByNamespace :=
                  (privateServicesByNamespace ps)(ns := privateServicesByNamespace ps ns @ [s])\<rparr>
           else if visibility_Public \<in> set (defaultServiceExportTo ps) then
             ps\<lparr>publicServices := publicServices ps @ [s]\<rparr>
           else ps)
      else if visibility_Public \<in> set (ExportTo (Attributes s)) then
        ps\<lparr>publicServices := publicServices ps @ [s]\<rparr>
      else if visibility_None \<in> set (ExportTo (Attributes s)) then
        ps
      else
        indexService s (exportToNamespaces s ns (ExportTo (Attributes s)) ps))"

text \<open>\<open>initServiceAccounts\<close>: per service and per port that is not UDP.\<close>

fun portAccounts ::
  "Environment \<Rightarrow> Service \<Rightarrow> ServicePort list \<Rightarrow> (int \<rightharpoonup> string list) \<Rightarrow> (int \<rightharpoonup> string list)" where
  "portAccounts env svc [] accounts = accounts"
| "portAccounts env svc (port # ports) accounts =
     portAccounts env svc ports
       (if Protocol port = ''UDP'' then accounts
        else accounts(Port port \<mapsto> GetIstioServiceAccounts env svc [Port port]))"

fun initServiceAccounts :: "Environment \<Rightarrow> Service list \<Rightarrow> PushContext \<Rightarrow> PushContext" where
  "initServiceAccounts env [] ps = ps"
| "initServiceAccounts env (svc # services) ps =
     initServiceAccounts env services
       (ps\<lparr>ServiceAccounts :=
            (ServiceAccounts ps)(Hostname svc \<mapsto>
               portAccounts env svc (Ports svc)
                 (case ServiceAccounts ps (Hostname svc) of
                    None \<Rightarrow> Map.empty
                  | Some accounts \<Rightarrow> accounts))\<rparr>)"

text \<open>
  \<open>initServiceRegistry(env)\<close>: the returned error and the snapshot as the call leaves
  it.
\<close>

definition initServiceRegistry :: "Environment \<Rightarrow> PushContext \<Rightarrow> error option \<times> PushContext" where
  "initServiceRegistry env ps =
     (case envServices env of
        Inl err \<Rightarrow> (Some err, ps)
      | Inr services \<Rightarrow>
          (let allServices = sortServicesByCreationTime services
           in (None, initServiceAccounts env allServices (fold registerService allServices ps))))"

text \<open>
  The other seven passes. Each assigns what the environment lists to the fields of its
  index class, or returns the error of the store call; \<open>initVirtualServices\<close> resets
  its three maps before it lists, and the two policy passes assign before they test
  the error.
\<close>

definition initVirtualServices :: "Environment \<Rightarrow> PushContext \<Rightarrow> error option \<times> PushContext" where
  "initVirtualServices env ps =
     (let ps0 = ps\<lparr> virtualServicesExportedToNamespaceByGateway := 0,
                     privateVirtualServicesByNamespaceAndGateway := 0,
                     publicVirtualServicesByGateway := 0 \<rparr>
      in case listVirtualServices env ps0 of
           Inl err \<Rightarrow> (Some err, ps0)
         | Inr (exported, private, public) \<Rightarrow>
             (None, ps0\<lparr> virtualServicesExportedToNamespaceByGateway := exported,
                         privateVirtualServicesByNamespaceAndGateway := private,
                         publicVirtualServicesByGateway := public \<rparr>))"

definition initDestinationRules :: "Environment \<Rightarrow> PushContext \<Rightarrow> error option \<times> PushContext" where
  "initDestinationRules env ps =
     (case listDestinationRules env ps of
        Inl err \<Rightarrow> (Some err, ps)
      | Inr (namespaceLocal, exported, rootLocal) \<Rightarrow>
          (None, ps\<lparr> namespaceLocalDestRules := namespaceLocal,
                     exportedDestRulesByNamespace := exported,
                     rootNamespaceLocalDestRules := Some rootLocal \<rparr>))"

definition initAuthnPolicies :: "Environment \<Rightarrow> PushContext \<Rightarrow> error option \<times> PushContext" where
  "initAuthnPolicies env ps =
     (case initAuthenticationPolicies env of
        (policies, err) \<Rightarrow> (err, ps\<lparr>AuthnBetaPolicies := policies\<rparr>))"

definition initAuthorizationPolicies :: "Environment \<Rightarrow> PushContext \<Rightarrow> error option \<times> PushContext" where
  "initAuthorizationPolicies env ps =
     (case GetAuthorizationPolicies env of
        (policies, err) \<Rightarrow> (err, ps\<lparr>AuthzPolicies := policies\<rparr>))"

definition initEnvoyFilters :: "Environment \<Rightarrow> PushContext \<Rightarrow> error option \<times> PushContext" where
  "initEnvoyFilters env ps =
     (case listEnvoyFilters env of
        Inl err \<Rightarrow> (Some err, ps)
      | Inr filters \<Rightarrow> (None, ps\<lparr>envoyFiltersByNamespace := filters\<rparr>))"

definition initGateways :: "Environment \<Rightarrow> PushContext \<Rightarrow> error option \<times> PushContext" where
  "initGateways env ps =
     (case listGateways env of
        Inl err \<Rightarrow> (Some err, ps)
      | Inr (allGw, byNamespace) \<Rightarrow>
          (None, ps\<lparr>allGateways := allGw, gatewaysByNamespace := byNamespace\<rparr>))"

definition initSidecarScopes :: "Environment \<Rightarrow> PushContext \<Rightarrow> error option \<times> PushContext" where
  "initSidecarScopes env ps =
     (case listSidecars env ps of
        Inl err \<Rightarrow> (Some err, ps)
      | Inr scopes \<Rightarrow> (None, ps\<lparr>sidecarsByNamespace := scopes\<rparr>))"

definition initMeshNetworks :: "Environment \<Rightarrow> PushContext \<Rightarrow> PushContext" where
  "initMeshNetworks env ps =
     (case meshNetworkGateways env of
        None \<Rightarrow> ps
      | Some gateways \<Rightarrow> ps\<lparr>networkGateways := gateways\<rparr>)"

definition initClusterLocalHosts :: "Environment \<Rightarrow> PushContext \<Rightarrow> PushContext" where
  "initClusterLocalHosts env ps = ps\<lparr>clusterLocalHosts := envClusterLocalHosts env (Mesh ps)\<rparr>"

text \<open>
  \<open>initDefaultExportMaps\<close>: the keys of each default export map, public alone when the
  mesh configuration has a nil list.
\<close>

definition defaultExportMap :: "string list option \<Rightarrow> visibility list" where
  "defaultExportMap configured =
     (case configured of
        Some es \<Rightarrow> remdups es
      | None \<Rightarrow> [visibility_Public])"

definition initDefaultExportMaps :: "PushContext \<Rightarrow> PushContext" where
  "initDefaultExportMaps ps =
     ps\<lparr> defaultDestinationRuleExportTo :=
            defaultExportMap (DefaultDestinationRuleExportTo (Mesh ps)),
          defaultServiceExportTo := defaultExportMap (DefaultServiceExportTo (Mesh ps)),
          defaultVirtualServiceExportTo :=
            defaultExportMap (DefaultVirtualServiceExportTo (Mesh ps)) \<rparr>"

text \<open>
  A build is followed through the snapshot under construction and the list of the
  build functions called so far, oldest first. \<open>call\<close> runs one of them and records
  it; \<open>orReturn\<close> is \<open>if err != nil { return err }\<close> followed by the rest.
\<close>

datatype InitCall =
    CallCreateNewContext
  | CallUpdateContext
  | CallInitServiceRegistry
  | CallInitVirtualServices
  | CallInitDestinationRules
  | CallInitAuthnPolicies
  | CallInitAuthorizationPolicies
  | CallInitEnvoyFilters
  | CallInitGateways
  | CallInitSidecarScopes

type_synonym build = "PushContext \<times> InitCall list"

definition call ::
  "InitCall \<Rightarrow> (PushContext \<Rightarrow> error option \<times> PushContext) \<Rightarrow> build \<Rightarrow> error option \<times> build" where
  "call c f b = (case f (fst b) of (err, ps') \<Rightarrow> (err, (ps', snd b @ [c])))"

definition reuse :: "(PushContext \<Rightarrow> PushContext) \<Rightarrow> build \<Rightarrow> error option \<times> build" where
  "reuse f b = (None, (f (fst b), snd b))"

definition orReturn ::
  "error option \<times> build \<Rightarrow> (build \<Rightarrow> error option \<times> build) \<Rightarrow> error option \<times> build" where
  "orReturn r rest = (case fst r of Some err \<Rightarrow> (Some err, snd r) | None \<Rightarrow> rest (snd r))"

definition createNewContext :: "Environment \<Rightarrow> build \<Rightarrow> error option \<times> build" where
  "createNewContext env b0 =
     orReturn (call CallInitServiceRegistry (initServiceRegistry env)
                 (fst b0, snd b0 @ [CallCreateNewContext])) (\<lambda>b.
     orReturn (call CallInitVirtualServices (initVirtualServices env) b) (\<lambda>b.
     orReturn (call CallInitDestinationRules (initDestinationRules env) b) (\<lambda>b.
     orReturn (call CallInitAuthnPolicies (initAuthnPolicies env) b) (\<lambda>b.
     orReturn (call CallInitAuthorizationPolicies (initAuthorizationPolicies env) b) (\<lambda>b.
     orReturn (call CallInitEnvoyFilters (initEnvoyFilters env) b) (\<lambda>b.
     orReturn (call CallInitGateways (initGateways env) b) (\<lambda>b.
     call CallInitSidecarScopes (initSidecarScopes env) b)))))))"

text \<open>
  \<open>updateContext\<close>: the flags set by the loop over \<open>pushReq.ConfigsUpdated\<close>, then for
  each index class either its pass or the assignment of the old snapshot's fields.
\<close>

definition servicesChanged :: "PushRequest \<Rightarrow> bool" where
  "servicesChanged pushReq = (ServiceEntry \<in> Kind ` ConfigsUpdated pushReq)"

definition destinationRulesChanged :: "PushRequest \<Rightarrow> bool" where
  "destinationRulesChanged pushReq = (DestinationRuleKind \<in> Kind ` ConfigsUpdated pushReq)"

definition serviceApisChanged :: "PushRequest \<Rightarrow> bool" where
  "serviceApisChanged pushReq =
     (K8SServiceApisV1Alpha1Httproutes \<in> Kind ` ConfigsUpdated pushReq
      \<or> K8SServiceApisV1Alpha1Tcproutes \<in> Kind ` ConfigsUpdated pushReq
      \<or> K8SServiceApisV1Alpha1Gateways \<in> Kind ` ConfigsUpdated pushReq
      \<or> K8SServiceApisV1Alpha1Gatewayclasses \<in> Kind ` ConfigsUpdated pushReq)"

definition virtualServicesChanged :: "PushRequest \<Rightarrow> bool" where
  "virtualServicesChanged pushReq =
     (VirtualService \<in> Kind ` ConfigsUpdated pushReq \<or> serviceApisChanged pushReq)"

definition gatewayChanged :: "PushRequest \<Rightarrow> bool" where
  "gatewayChanged pushReq =
     (GatewayKind \<in> Kind ` ConfigsUpdated pushReq \<or> serviceApisChanged pushReq)"

definition sidecarsChanged :: "PushRequest \<Rightarrow> bool" where
  "sidecarsChanged pushReq = (Sidecar \<in> Kind ` ConfigsUpdated pushReq)"

definition envoyFiltersChanged :: "PushRequest \<Rightarrow> bool" where
  "envoyFiltersChanged pushReq = (EnvoyFilter \<in> Kind ` ConfigsUpdated pushReq)"

definition authzChanged :: "PushRequest \<Rightarrow> bool" where
  "authzChanged pushReq = (AuthorizationPolicy \<in> Kind ` ConfigsUpdated pushReq)"

definition authnChanged :: "PushRequest \<Rightarrow> bool" where
  "authnChanged pushReq =
     (RequestAuthentication \<in> Kind ` ConfigsUpdated pushReq
      \<or> PeerAuthentication \<in> Kind ` ConfigsUpdated pushReq)"

definition updateContext ::
  "Environment \<Rightarrow> PushContext \<Rightarrow> PushRequest \<Rightarrow> build \<Rightarrow> error option \<times> build" where
  "updateContext env oldPushContext pushReq b0 =
     orReturn
       (if servicesChanged pushReq
        then call CallInitServiceRegistry (initServiceRegistry env)
               (fst b0, snd b0 @ [CallUpdateContext])
        else reuse (\<lambda>ps. ps\<lparr>
               privateServicesByNamespace := privateServicesByNamespace oldPushContext,
               servicesExportedToNamespace := servicesExportedToNamespace oldPushContext,
               publicServices := publicServices oldPushContext,
               ServiceByHostnameAndNamespace := ServiceByHostnameAndNamespace oldPushContext,
               ServiceByHostname := ServiceByHostname oldPushContext,
               ServiceAccounts := ServiceAccounts oldPushContext \<rparr>)
               (fst b0, snd b0 @ [CallUpdateContext])) (\<lambda>b.
     orReturn
       (if virtualServicesChanged pushReq
        then call CallInitVirtualServices (initVirtualServices env) b
        else reuse (\<lambda>ps. ps\<lparr>
               virtualServicesExportedToNamespaceByGateway :=
                 virtualServicesExportedToNamespaceByGateway oldPushContext,
               privateVirtualServicesByNamespaceAndGateway :=
                 privateVirtualServicesByNamespaceAndGateway oldPushContext,
               publicVirtualServicesByGateway := publicVirtualServicesByGateway oldPushContext \<rparr>) b) (\<lambda>b.
     orReturn
       (if destinationRulesChanged pushReq
        then call CallInitDestinationRules (initDestinationRules env) b
        else reuse (\<lambda>ps. ps\<lparr>
               namespaceLocalDestRules := namespaceLocalDestRules oldPushContext,
               exportedDestRulesByNamespace := exportedDestRulesByNamespace oldPushContext,
               rootNamespaceLocalDestRules := rootNamespaceLocalDestRules oldPushContext \<rparr>) b) (\<lambda>b.
     orReturn
       (if authnChanged pushReq
        then call CallInitAuthnPolicies (initAuthnPolicies env) b
        else reuse (\<lambda>ps. ps\<lparr>AuthnBetaPolicies := AuthnBetaPolicies oldPushContext\<rparr>) b) (\<lambda>b.
     orReturn
       (if authzChanged pushReq
        then call CallInitAuthorizationPolicies (initAuthorizationPolicies env) b
        else reuse (\<lambda>ps. ps\<lparr>AuthzPolicies := AuthzPolicies oldPushContext\<rparr>) b) (\<lambda>b.
     orReturn
       (if envoyFiltersChanged pushReq
        then call CallInitEnvoyFilters (initEnvoyFilters env) b
        else reuse (\<lambda>ps. ps\<lparr>envoyFiltersByNamespace := envoyFiltersByNamespace oldPushContext\<rparr>) b) (\<lambda>b.
     orReturn
       (if gatewayChanged pushReq
        then call CallInitGateways (initGateways env) b
        else reuse (\<lambda>ps. ps\<lparr>
               gatewaysByNamespace := gatewaysByNamespace oldPushContext,
               allGateways := allGateways oldPushContext \<rparr>) b) (\<lambda>b.
     if servicesChanged pushReq \<or> virtualServicesChanged pushReq
        \<or> destinationRulesChanged pushReq \<or> sidecarsChanged pushReq
     then call CallInitSidecarScopes (initSidecarScopes env) b
     else reuse (\<lambda>ps. ps\<lparr>sidecarsByNamespace := sidecarsByNamespace oldPushContext\<rparr>) b)))))))"

text \<open>
  \<open>InitContext(env, oldPushContext, pushReq)\<close>; the old snapshot and the request are
  pointers that may be nil.
\<close>

definition InitContext ::
  "Environment \<Rightarrow> PushContext option \<Rightarrow> PushRequest option \<Rightarrow> build \<Rightarrow> error option \<times> build" where
  "InitContext env oldPushContext pushReq b =
     (if initDone (fst b) then (None, b)
      else
        (let ps1 = (fst b)\<lparr>Mesh := envMesh env, Version := envVersion env\<rparr>;
             ps2 = initDefaultExportMaps ps1
         in orReturn
              (case pushReq of
                 None \<Rightarrow> createNewContext env (ps2, snd b)
               | Some req \<Rightarrow>
                   (case oldPushContext of
                      None \<Rightarrow> createNewContext env (ps2, snd b)
                    | Some old \<Rightarrow>
                        if \<not> initDone old \<or> ConfigsUpdated req = {}
                        then createNewContext env (ps2, snd b)
                        else updateContext env old req (ps2, snd b)))
              (\<lambda>b'. (None,
                 ((initClusterLocalHosts env (initMeshNetworks env (fst b')))\<lparr>initDone := True\<rparr>,
                  snd b')))))"

text \<open>
  The services held by the three buckets of a snapshot, and the services of a store
  that the export rules let into a bucket.
\<close>

definition servicesInBuckets :: "PushContext \<Rightarrow> Service set" where
  "servicesInBuckets ps =
     set (publicServices ps)
     \<union> (\<Union>ns. set (privateServicesByNamespace ps ns))
     \<union> (\<Union>ns. set (servicesExportedToNamespace ps ns))"

definition bucketed :: "visibility list \<Rightarrow> Service \<Rightarrow> bool" where
  "bucketed defaultExportTo s =
     (if ExportTo (Attributes s) = []
      then visibility_Private \<in> set defaultExportTo \<or> visibility_Public \<in> set defaultExportTo
      else visibility_Public \<in> set (ExportTo (Attributes s))
           \<or> visibility_None \<notin> set (ExportTo (Attributes s)))"

subsection \<open>Index classes\<close>

text \<open>
  The eight index classes of a snapshot, in build order, with the pass that builds
  each, the request kinds that mark it changed, and the test that a snapshot holds the
  very index of another one.
\<close>

datatype IndexClass =
    ServicesIndex
  | VirtualServicesIndex
  | DestinationRulesIndex
  | AuthnIndex
  | AuthzIndex
  | EnvoyFiltersIndex
  | GatewaysIndex
  | SidecarScopesIndex

definition buildOrder :: "IndexClass list" where
  "buildOrder = [ServicesIndex, VirtualServicesIndex, DestinationRulesIndex, AuthnIndex,
                 AuthzIndex, EnvoyFiltersIndex, GatewaysIndex, SidecarScopesIndex]"

fun passOf :: "IndexClass \<Rightarrow> InitCall" where
  "passOf ServicesIndex = CallInitServiceRegistry"
| "passOf VirtualServicesIndex = CallInitVirtualServices"
| "passOf DestinationRulesIndex = CallInitDestinationRules"
| "passOf AuthnIndex = CallInitAuthnPolicies"
| "passOf AuthzIndex = CallInitAuthorizationPolicies"
| "passOf EnvoyFiltersIndex = CallInitEnvoyFilters"
| "passOf GatewaysIndex = CallInitGateways"
| "passOf SidecarScopesIndex = CallInitSidecarScopes"

fun runPass :: "IndexClass \<Rightarrow> Environment \<Rightarrow> PushContext \<Rightarrow> error option \<times> PushContext" where
  "runPass ServicesIndex = initServiceRegistry"
| "runPass VirtualServicesIndex = initVirtualServices"
| "runPass DestinationRulesIndex = initDestinationRules"
| "runPass AuthnIndex = initAuthnPolicies"
| "runPass AuthzIndex = initAuthorizationPolicies"
| "runPass EnvoyFiltersIndex = initEnvoyFilters"
| "runPass GatewaysIndex = initGateways"
| "runPass SidecarScopesIndex = initSidecarScopes"

fun classChanged :: "IndexClass \<Rightarrow> PushRequest \<Rightarrow> bool" where
  "classChanged ServicesIndex req = servicesChanged req"
| "classChanged VirtualServicesIndex req = virtualServicesChanged req"
| "classChanged DestinationRulesIndex req = destinationRulesChanged req"
| "classChanged AuthnIndex req = authnChanged req"
| "classChanged AuthzIndex req = authzChanged req"
| "classChanged EnvoyFiltersIndex req = envoyFiltersChanged req"
| "classChanged GatewaysIndex req = gatewayChanged req"
| "classChanged SidecarScopesIndex req =
     (servicesChanged req \<or> virtualServicesChanged req
      \<or> destinationRulesChanged req \<or> sidecarsChanged req)"

fun sameIndex :: "IndexClass \<Rightarrow> PushContext \<Rightarrow> PushContext \<Rightarrow> bool" where
  "sameIndex ServicesIndex ps old =
     (privateServicesByNamespace ps = privateServicesByNamespace old
      \<and> servicesExportedToNamespace ps = servicesExportedToNamespace old
      \<and> publicServices ps = publicServices old
      \<and> ServiceByHostnameAndNamespace ps = ServiceByHostnameAndNamespace old
      \<and> ServiceByHostname ps = ServiceByHostname old
      \<and> ServiceAccounts ps = ServiceAccounts old)"
| "sameIndex VirtualServicesIndex ps old =
     (virtualServicesExportedToNamespaceByGateway ps
        = virtualServicesExportedToNamespaceByGateway old
      \<and> privateVirtualServicesByNamespaceAndGateway ps
        = privateVirtualServicesByNamespaceAndGateway old
      \<and> publicVirtualServicesByGateway ps = publicVirtualServicesByGateway old)"
| "sameIndex DestinationRulesIndex ps old =
     (namespaceLocalDestRules ps = namespaceLocalDestRules old
      \<and> exportedDestRulesByNamespace ps = exportedDestRulesByNamespace old
      \<and> rootNamespaceLocalDestRules ps = rootNamespaceLocalDestRules old)"
| "sameIndex AuthnIndex ps old = (AuthnBetaPolicies ps = AuthnBetaPolicies old)"
| "sameIndex AuthzIndex ps old = (AuthzPolicies ps = AuthzPolicies old)"
| "sameIndex EnvoyFiltersIndex ps old =
     (envoyFiltersByNamespace ps = envoyFiltersByNamespace old)"
| "sameIndex GatewaysIndex ps old =
     (gatewaysByNamespace ps = gatewaysByNamespace old \<and> allGateways ps = allGateways old)"
| "sameIndex SidecarScopesIndex ps old = (sidecarsByNamespace ps = sidecarsByNamespace old)"

fun copyIndex :: "IndexClass \<Rightarrow> PushContext \<Rightarrow> PushContext \<Rightarrow> PushContext" where
  "copyIndex ServicesIndex old ps =
     ps\<lparr> privateServicesByNamespace := privateServicesByNamespace old,
          servicesExportedToNamespace := servicesExportedToNamespace old,
          publicServices := publicServices old,
          ServiceByHostnameAndNamespace := ServiceByHostnameAndNamespace old,
          ServiceByHostname := ServiceByHostname old,
          ServiceAccounts := ServiceAccounts old \<rparr>"
| "copyIndex VirtualServicesIndex old ps =
     ps\<lparr> virtualServicesExportedToNamespaceByGateway :=
            virtualServicesExportedToNamespaceByGateway old,
          privateVirtualServicesByNamespaceAndGateway :=
            privateVirtualServicesByNamespaceAndGateway old,
          publicVirtualServicesByGateway := publicVirtualServicesByGateway old \<rparr>"
| "copyIndex DestinationRulesIndex old ps =
     ps\<lparr> namespaceLocalDestRules := namespaceLocalDestRules old,
          exportedDestRulesByNamespace := exportedDestRulesByNamespace old,
          rootNamespaceLocalDestRules := rootNamespaceLocalDestRules old \<rparr>"
| "copyIndex AuthnIndex old ps = ps\<lparr>AuthnBetaPolicies := AuthnBetaPolicies old\<rparr>"
| "copyIndex AuthzIndex old ps = ps\<lparr>AuthzPolicies := AuthzPolicies old\<rparr>"
| "copyIndex EnvoyFiltersIndex old ps =
     ps\<lparr>envoyFiltersByNamespace := envoyFiltersByNamespace old\<rparr>"
| "copyIndex GatewaysIndex old ps =
     ps\<lparr> gatewaysByNamespace := gatewaysByNamespace old, allGateways := allGateways old \<rparr>"
| "copyIndex SidecarScopesIndex old ps = ps\<lparr>sidecarsByNamespace := sidecarsByNamespace old\<rparr>"

text \<open>
  One step of an incremental build for an index class, and a build as a list of steps
  run until the first error; \<open>createNewContext\<close> and \<open>updateContext\<close> are such lists.
\<close>

definition updateStep ::
  "Environment \<Rightarrow> PushContext \<Rightarrow> PushRequest \<Rightarrow> IndexClass \<Rightarrow> build \<Rightarrow> error option \<times> build" where
  "updateStep env old req c b =
     (if classChanged c req then call (passOf c) (runPass c env) b
      else reuse (copyIndex c old) b)"

fun runSteps :: "(build \<Rightarrow> error option \<times> build) list \<Rightarrow> build \<Rightarrow> error option \<times> build" where
  "runSteps [] b = (None, b)"
| "runSteps (step # steps) b = orReturn (step b) (runSteps steps)"

definition fullBuildOrder :: "InitCall list" where
  "fullBuildOrder = CallCreateNewContext # map passOf buildOrder"

text \<open>The fields outside the service index, which the service registry pass leaves alone.\<close>

definition otherFields where
  "otherFields ps =
     (virtualServicesExportedToNamespaceByGateway ps,
      privateVirtualServicesByNamespaceAndGateway ps,
      publicVirtualServicesByGateway ps,
      namespaceLocalDestRules ps, exportedDestRulesByNamespace ps,
      rootNamespaceLocalDestRules ps,
      AuthnBetaPolicies ps, AuthzPolicies ps, envoyFiltersByNamespace ps,
      gatewaysByNamespace ps, allGateways ps, sidecarsByNamespace ps)"

text \<open>
  When a full build is asked for, in the words of the build contract: the request is
  nil, the old snapshot is nil or not initialised, or the request names no config.
\<close>

definition fullBuildRequired :: "PushContext option \<Rightarrow> PushRequest option \<Rightarrow> bool" where
  "fullBuildRequired old req =
     (case req of
        None \<Rightarrow> True
      | Some r \<Rightarrow>
          (case old of
             None \<Rightarrow> True
           | Some oldContext \<Rightarrow> \<not> initDone oldContext \<or> ConfigsUpdated r = {}))"

subsection \<open>The snapshot of a build\<close>

text \<open>
  The statements of \<open>InitContext\<close> before the build (mesh, version and default export
  maps) and after it (mesh networks, cluster-local hosts, \<open>initDone\<close>).
\<close>

definition prepareContext :: "Environment \<Rightarrow> PushContext \<Rightarrow> PushContext" where
  "prepareContext env ps =
     initDefaultExportMaps (ps\<lparr>Mesh := envMesh env, Version := envVersion env\<rparr>)"

definition finishContext :: "Environment \<Rightarrow> PushContext \<Rightarrow> PushContext" where
  "finishContext env ps =
     (initClusterLocalHosts env (initMeshNetworks env ps))\<lparr>initDone := True\<rparr>"

text \<open>
  A build step for an index class under any choice of the classes to rebuild (all of
  them in a full build), what the step makes of the snapshot when it returns no error,
  and the snapshot that the step of a class receives: the steps of the classes before
  it in the build order, applied to the snapshot the build started from.
\<close>

definition buildStep ::
  "Environment \<Rightarrow> PushContext \<Rightarrow> (IndexClass \<Rightarrow> bool) \<Rightarrow> IndexClass \<Rightarrow> build
     \<Rightarrow> error option \<times> build" where
  "buildStep env old changed c b =
     (if changed c then call (passOf c) (runPass c env) b
      else reuse (copyIndex c old) b)"

definition snapshotStep ::
  "Environment \<Rightarrow> PushContext \<Rightarrow> (IndexClass \<Rightarrow> bool) \<Rightarrow> IndexClass \<Rightarrow> PushContext
     \<Rightarrow> PushContext" where
  "snapshotStep env old changed c ps =
     (if changed c then snd (runPass c env ps) else copyIndex c old ps)"

definition snapshotBefore ::
  "Environment \<Rightarrow> PushContext \<Rightarrow> (IndexClass \<Rightarrow> bool) \<Rightarrow> IndexClass \<Rightarrow> PushContext
     \<Rightarrow> PushContext" where
  "snapshotBefore env old changed c ps =
     fold (snapshotStep env old changed) (takeWhile (\<lambda>k. k \<noteq> c) buildOrder) ps"

text \<open>
  \<open>rebuilt c env before after\<close>: the fields of class \<open>c\<close> in \<open>after\<close> hold what the
  environment yields, without error, for the snapshot \<open>before\<close> that the pass of the
  class received: the service index made from the store's service list, and for the
  other classes the indexes the environment lists.
\<close>

fun rebuilt :: "IndexClass \<Rightarrow> Environment \<Rightarrow> PushContext \<Rightarrow> PushContext \<Rightarrow> bool" where
  "rebuilt ServicesIndex env before after =
     (case envServices env of
        Inl err \<Rightarrow> False
      | Inr services \<Rightarrow>
          sameIndex ServicesIndex after
            (initServiceAccounts env (sortServicesByCreationTime services)
               (fold registerService (sortServicesByCreationTime services) before)))"
| "rebuilt VirtualServicesIndex env before after =
     (listVirtualServices env
        (before\<lparr> virtualServicesExportedToNamespaceByGateway := 0,
                  privateVirtualServicesByNamespaceAndGateway := 0,
                  publicVirtualServicesByGateway := 0 \<rparr>)
      = Inr (virtualServicesExportedToNamespaceByGateway after,
             privateVirtualServicesByNamespaceAndGateway after,
             publicVirtualServicesByGateway after))"
| "rebuilt DestinationRulesIndex env before after =
     (case rootNamespaceLocalDestRules after of
        None \<Rightarrow> False
      | Some rootLocal \<Rightarrow>
          listDestinationRules env before
            = Inr (namespaceLocalDestRules after, exportedDestRulesByNamespace after, rootLocal))"
| "rebuilt AuthnIndex env before after =
     (initAuthenticationPolicies env = (AuthnBetaPolicies after, None))"
| "rebuilt AuthzIndex env before after =
     (GetAuthorizationPolicies env = (AuthzPolicies after, None))"
| "rebuilt EnvoyFiltersIndex env before after =
     (listEnvoyFilters env = Inr (envoyFiltersByNamespace after))"
| "rebuilt GatewaysIndex env before after =
     (listGateways env = Inr (allGateways after, gatewaysByNamespace after))"
| "rebuilt SidecarScopesIndex env before after =
     (listSidecars env before = Inr (sidecarsByNamespace after))"

subsection \<open>Services, an environment and snapshots used as concrete inputs\<close>

definition exHidden :: Service where
  "exHidden = \<lparr> Hostname = ''hidden.default.svc.cluster.local'',
     Attributes = \<lparr> attr_Namespace = ''default'', ExportTo = [''~''] \<rparr>,
     Ports = [], CreationTime = 1 \<rparr>"

definition exBoth :: Service where
  "exBoth = \<lparr> Hostname = ''both.default.svc.cluster.local'',
     Attributes = \<lparr> attr_Namespace = ''default'', ExportTo = [''*'', ''~''] \<rparr>,
     Ports = [], CreationTime = 2 \<rparr>"

definition exReviews :: Service where
  "exReviews = \<lparr> Hostname = ''reviews.default.svc.cluster.local'',
     Attributes = \<lparr> attr_Namespace = ''default'', ExportTo = [''.'', ''bookinfo''] \<rparr>,
     Ports = [\<lparr> Port = 9080, Protocol = ''HTTP'' \<rparr>], CreationTime = 0 \<rparr>"

definition exMesh :: MeshConfig where
  "exMesh = \<lparr> RootNamespace = ''istio-system'', DefaultServiceExportTo = None,
     DefaultVirtualServiceExportTo = None, DefaultDestinationRuleExportTo = None \<rparr>"

definition exEnv :: "error + Service list \<Rightarrow> Environment" where
  "exEnv services =
     \<lparr> envMesh = exMesh, envVersion = ''v1'', envServices = services,
       GetIstioServiceAccounts = (\<lambda>svc ports. []),
       listVirtualServices = (\<lambda>ps. Inr (1, 2, 3)),
       listDestinationRules = (\<lambda>ps. Inr (Map.empty, Map.empty,
          \<lparr> hosts = [], exportTo = (\<lambda>h. []), destRule = Map.empty \<rparr>)),
       initAuthenticationPolicies = (4, None),
       GetAuthorizationPolicies = (5, None),
       listEnvoyFilters = Inr 6,
       listGateways = Inr (7, 8),
       listSidecars = (\<lambda>ps. Inr 9),
       meshNetworkGateways = None,
       envClusterLocalHosts = (\<lambda>mesh. []) \<rparr>"

definition exOld :: PushContext where
  "exOld = NewPushContext \<lparr> publicVirtualServicesByGateway := 13, sidecarsByNamespace := 19,
     gatewaysByNamespace := 17, initDone := True \<rparr>"

definition exPushRequest :: "GroupVersionKind \<Rightarrow> PushRequest" where
  "exPushRequest k = \<lparr> Full = True,
     ConfigsUpdated = {\<lparr> Kind = k, Name = ''reviews'', Namespace = ''default'' \<rparr>},
     Push = None, Start = 0, Reason = [''config''] \<rparr>"

text \<open>A host matcher for concrete inputs: the host itself when it is in the list.\<close>

definition exactHostMatch :: "hostname \<Rightarrow> hostname list \<Rightarrow> hostname option" where
  "exactHostMatch h hs = (if h \<in> set hs then Some h else None)"

definition exRules :: "visibility list \<Rightarrow> string \<Rightarrow> processedDestRules" where
  "exRules export name =
     \<lparr> hosts = [''reviews.default.svc.cluster.local''],
       exportTo = (\<lambda>h. if h = ''reviews.default.svc.cluster.local'' then export else []),
       destRule = [''reviews.default.svc.cluster.local'' \<mapsto> Config ''default'' name] \<rparr>"

definition exSnapshot :: PushContext where
  "exSnapshot = NewPushContext
     \<lparr> Mesh := exMesh,
       exportedDestRulesByNamespace :=
         [''default'' \<mapsto> exRules [''bookinfo''] ''reviews-exported''],
       namespaceLocalDestRules := [''default'' \<mapsto> exRules [] ''reviews-local''],
       rootNamespaceLocalDestRules :=
         Some \<lparr> hosts = [], exportTo = (\<lambda>h. []), destRule = Map.empty \<rparr> \<rparr>"


section \<open>Properties of push-request merging\<close>

text \<open>
  C2. For non-nil requests \<open>a\<close> and \<open>b\<close>, \<open>a.Merge(b)\<close> is a request whose \<open>Full\<close> is
  the disjunction of the two flags, whose \<open>Start\<close> is that of \<open>a\<close>, whose \<open>Push\<close> is
  that of \<open>b\<close>, whose \<open>Reason\<close> is the concatenation of the two reason lists with
  nothing removed, and whose \<open>ConfigsUpdated\<close> is the union of the two sets when both
  are non-empty and the empty set when either one is empty.
\<close>

theorem Merge_fields:
  "\<exists>m. Merge (Some a) (Some b) = Some m
     \<and> Full m = (Full a \<or> Full b)
     \<and> Start m = Start a
     \<and> Push m = Push b
     \<and> Reason m = Reason a @ Reason b
     \<and> length (Reason m) = length (Reason a) + length (Reason b)
     \<and> ConfigsUpdated m =
         (if ConfigsUpdated a = {} \<or> ConfigsUpdated b = {} then {}
          else ConfigsUpdated a \<union> ConfigsUpdated b)"
  by simp



section \<open>Properties of the ack/nack decision\<close>

lemma allFound_subset: "allFound first b \<longleftrightarrow> set b \<subseteq> first"
  by (induction b) auto

lemma listEqualUnordered_iff:
  "listEqualUnordered a b \<longleftrightarrow> length a = length b \<and> set b \<subseteq> set a"
  by (simp add: listEqualUnordered_def allFound_subset)

text \<open>
  On lists without repeated names \<open>listEqualUnordered\<close> is equality of the sets of
  names.
\<close>

lemma listEqualUnordered_distinct:
  assumes "distinct a" and "distinct b"
  shows "listEqualUnordered a b \<longleftrightarrow> set a = set b"
proof
  assume "listEqualUnordered a b"
  then have len: "length a = length b" and sub: "set b \<subseteq> set a"
    by (simp_all add: listEqualUnordered_iff)
  from assms len have "card (set b) = card (set a)"
    by (simp add: distinct_card)
  with sub have "set b = set a"
    by (intro card_subset_eq) simp_all
  then show "set a = set b" by simp
next
  assume eq: "set a = set b"
  with assms have "length a = length b"
    by (metis distinct_card)
  with eq show "listEqualUnordered a b"
    by (simp add: listEqualUnordered_iff)
qed

text \<open>
  The nonce-match branch in full: the acknowledged version and nonce, the new resource
  names and the request are stored, no metric is touched, and the answer is the
  negation of \<open>listEqualUnordered\<close> on the previous and the requested names.
\<close>

lemma shouldRespond_ack:
  assumes "ErrorDetail request = None"
    and "ResponseNonce request \<noteq> []"
    and "WatchedResources (proxy con) (TypeUrl request) = Some w"
    and "ResponseNonce request = NonceSent w"
  shows "shouldRespond s con request =
           (\<not> listEqualUnordered (wr_ResourceNames w) (ResourceNames request),
            con\<lparr>proxy := (proxy con)\<lparr>WatchedResources :=
              (WatchedResources (proxy con))(TypeUrl request \<mapsto>
                 w\<lparr> VersionAcked := VersionInfo request,
                    NonceAcked := ResponseNonce request,
                    wr_ResourceNames := ResourceNames request,
                    LastRequest := Some request \<rparr>)\<rparr>\<rparr>,
            [])"
  using assms by (simp add: shouldRespond_def Let_def)

text \<open>
  C1, at the input where the code departs from it. The connection watches
  \<open>[a, b]\<close> for the type URL and has sent nonce \<open>n1\<close>; the request acknowledges \<open>n1\<close>
  without error detail and asks for \<open>[a, a]\<close>. The requested names are not equal to
  the watched ones in any order-independent sense (neither as sets nor as multisets),
  yet \<open>shouldRespond\<close> answers false, so no response is sent. The acknowledged version
  and nonce are recorded as the claim says.
\<close>

theorem shouldRespond_duplicate_names:
  "fst (shouldRespond s (exConnection [''a'', ''b'']) (exRequest [''a'', ''a''] None)) = False
   \<and> set [''a'', ''a''] \<noteq> set [''a'', ''b'']
   \<and> mset [''a'', ''a''] \<noteq> mset [''a'', ''b'']
   \<and> map_option (\<lambda>w. (VersionAcked w, NonceAcked w))
        (WatchedResources
           (proxy (fst (snd (shouldRespond s (exConnection [''a'', ''b''])
                               (exRequest [''a'', ''a''] None))))) ''cds'')
       = Some (''v1'', ''n1'')"
  by (simp add: shouldRespond_def exConnection_def exRequest_def exWatched_def
      listEqualUnordered_def)

text \<open>
  C7. A request whose error detail is set is a NACK: \<open>shouldRespond\<close> returns false,
  calls \<open>incrementXDSRejects\<close> with the type URL, the proxy id and the error code, then
  calls \<open>OnNack\<close> exactly when the internal generator is present, and hands back the
  connection unchanged; in particular the watched resource of the type URL, and its
  \<open>NonceAcked\<close>, are what they were.
\<close>

theorem shouldRespond_nack:
  assumes "ErrorDetail request = Some detail"
  shows "shouldRespond s con request =
           (False, con,
            IncrementXDSRejects (TypeUrl request) (ID (proxy con)) (Code detail) #
            (if InternalGen s then [OnNack (ID (proxy con)) request] else []))
         \<and> map_option NonceAcked
             (WatchedResources (proxy (fst (snd (shouldRespond s con request)))) (TypeUrl request))
           = map_option NonceAcked (WatchedResources (proxy con) (TypeUrl request))"
  using assms by (simp add: shouldRespond_def)

theorem shouldRespond_nack_witness:
  "ErrorDetail (exRequest [''a'', ''b''] (Some \<lparr>Code = 3, ErrorMessage = ''rejected''\<rparr>))
     = Some \<lparr>Code = 3, ErrorMessage = ''rejected''\<rparr>
   \<and> shouldRespond \<lparr>InternalGen = True\<rparr> (exConnection [''a'', ''b''])
        (exRequest [''a'', ''b''] (Some \<lparr>Code = 3, ErrorMessage = ''rejected''\<rparr>))
     = (False, exConnection [''a'', ''b''],
        [IncrementXDSRejects ''cds'' ''sidecar~10.0.0.1'' 3,
         OnNack ''sidecar~10.0.0.1''
           (exRequest [''a'', ''b''] (Some \<lparr>Code = 3, ErrorMessage = ''rejected''\<rparr>))])"
  using shouldRespond_nack [of "exRequest [''a'', ''b''] (Some \<lparr>Code = 3, ErrorMessage = ''rejected''\<rparr>)"
      "\<lparr>Code = 3, ErrorMessage = ''rejected''\<rparr>" "\<lparr>InternalGen = True\<rparr>" "exConnection [''a'', ''b'']"]
  by (simp add: exRequest_def exConnection_def)

text \<open>
  C10. \<open>listEqualUnordered a b\<close> holds exactly when the lists have the same length and
  every element of \<open>b\<close> occurs in \<open>a\<close>. It holds of \<open>[x, x, y]\<close> and \<open>[y, y, x]\<close>, which
  differ as multisets when \<open>x\<close> and \<open>y\<close> are different names. Hence an acknowledgement
  (no error detail, a non-empty nonce equal to the one sent) whose names have the
  length and the elements of the watched names, whatever the multiplicities, gets no
  response.
\<close>

theorem listEqualUnordered_not_multiset:
  "(listEqualUnordered a b \<longleftrightarrow> length a = length b \<and> set b \<subseteq> set a)
   \<and> listEqualUnordered [x, x, y] [y, y, x]
   \<and> (x \<noteq> y \<longrightarrow> mset [x, x, y] \<noteq> mset [y, y, x])
   \<and> (ErrorDetail request = None \<and> ResponseNonce request \<noteq> []
        \<and> WatchedResources (proxy con) (TypeUrl request) = Some w
        \<and> ResponseNonce request = NonceSent w
        \<and> length (ResourceNames request) = length (wr_ResourceNames w)
        \<and> set (ResourceNames request) = set (wr_ResourceNames w)
      \<longrightarrow> fst (shouldRespond s con request) = False)"
proof (intro conjI impI)
  show "listEqualUnordered a b \<longleftrightarrow> length a = length b \<and> set b \<subseteq> set a"
    by (rule listEqualUnordered_iff)
  show "listEqualUnordered [x, x, y] [y, y, x]"
    by (simp add: listEqualUnordered_iff)
  show "mset [x, x, y] \<noteq> mset [y, y, x]" if "x \<noteq> y"
  proof
    assume "mset [x, x, y] = mset [y, y, x]"
    then have "count (mset [x, x, y]) x = count (mset [y, y, x]) x" by simp
    with that show False by simp
  qed
  show "fst (shouldRespond s con request) = False"
    if h: "ErrorDetail request = None \<and> ResponseNonce request \<noteq> []
        \<and> WatchedResources (proxy con) (TypeUrl request) = Some w
        \<and> ResponseNonce request = NonceSent w
        \<and> length (ResourceNames request) = length (wr_ResourceNames w)
        \<and> set (ResourceNames request) = set (wr_ResourceNames w)"
  proof -
    from h have "listEqualUnordered (wr_ResourceNames w) (ResourceNames request)"
      by (simp add: listEqualUnordered_iff)
    moreover from h have "shouldRespond s con request =
           (\<not> listEqualUnordered (wr_ResourceNames w) (ResourceNames request),
            con\<lparr>proxy := (proxy con)\<lparr>WatchedResources :=
              (WatchedResources (proxy con))(TypeUrl request \<mapsto>
                 w\<lparr> VersionAcked := VersionInfo request,
                    NonceAcked := ResponseNonce request,
                    wr_ResourceNames := ResourceNames request,
                    LastRequest := Some request \<rparr>)\<rparr>\<rparr>,
            [])"
      by (intro shouldRespond_ack) blast+
    ultimately show ?thesis by simp
  qed
qed

theorem listEqualUnordered_not_multiset_witness:
  "listEqualUnordered [''x'', ''x'', ''y''] [''y'', ''y'', ''x'']
   \<and> ''x'' \<noteq> ''y''
   \<and> mset [''x'', ''x'', ''y''] \<noteq> mset [''y'', ''y'', ''x'']
   \<and> ErrorDetail (exRequest [''y'', ''y'', ''x''] None) = None
   \<and> ResponseNonce (exRequest [''y'', ''y'', ''x''] None) \<noteq> []
   \<and> WatchedResources (proxy (exConnection [''x'', ''x'', ''y'']))
        (TypeUrl (exRequest [''y'', ''y'', ''x''] None))
      = Some (exWatched\<lparr>wr_ResourceNames := [''x'', ''x'', ''y'']\<rparr>)
   \<and> ResponseNonce (exRequest [''y'', ''y'', ''x''] None)
      = NonceSent (exWatched\<lparr>wr_ResourceNames := [''x'', ''x'', ''y'']\<rparr>)
   \<and> fst (shouldRespond \<lparr>InternalGen = False\<rparr> (exConnection [''x'', ''x'', ''y''])
            (exRequest [''y'', ''y'', ''x''] None)) = False"
  using listEqualUnordered_not_multiset [of "[''x'', ''x'', ''y'']" "[''y'', ''y'', ''x'']"
      "''x''" "''y''" "exRequest [''y'', ''y'', ''x''] None" "exConnection [''x'', ''x'', ''y'']"
      "exWatched\<lparr>wr_ResourceNames := [''x'', ''x'', ''y'']\<rparr>" "\<lparr>InternalGen = False\<rparr>"]
  by (simp add: exRequest_def exConnection_def exWatched_def insert_commute)


section \<open>Properties of status reconciliation\<close>

lemma findReconciled_Some:
  "\<exists>r. findReconciled (map Some cs) i found = Inr r
     \<and> (filter (\<lambda>c. Type c = ''Reconciled'') cs = [] \<longrightarrow> r = found)
     \<and> (filter (\<lambda>c. Type c = ''Reconciled'') cs \<noteq> [] \<longrightarrow>
          fst r = Some (last (filter (\<lambda>c. Type c = ''Reconciled'') cs))
          \<and> int i \<le> snd r \<and> snd r < int i + int (length cs))"
proof (induction cs arbitrary: i found)
  case Nil
  then show ?case by simp
next
  case (Cons c cs)
  let ?found' = "if Type c = ''Reconciled'' then (Some c, int i) else found"
  from Cons.IH [of "Suc i" ?found'] obtain r where
    r: "findReconciled (map Some cs) (Suc i) ?found' = Inr r"
    and e: "filter (\<lambda>c. Type c = ''Reconciled'') cs = [] \<longrightarrow> r = ?found'"
    and n: "filter (\<lambda>c. Type c = ''Reconciled'') cs \<noteq> [] \<longrightarrow>
          fst r = Some (last (filter (\<lambda>c. Type c = ''Reconciled'') cs))
          \<and> int (Suc i) \<le> snd r \<and> snd r < int (Suc i) + int (length cs)"
    by blast
  from r have "findReconciled (map Some (c # cs)) i found = Inr r" by simp
  moreover from e n have "filter (\<lambda>c. Type c = ''Reconciled'') (c # cs) = [] \<longrightarrow> r = found"
    by auto
  moreover from e n have "filter (\<lambda>c. Type c = ''Reconciled'') (c # cs) \<noteq> [] \<longrightarrow>
          fst r = Some (last (filter (\<lambda>c. Type c = ''Reconciled'') (c # cs)))
          \<and> int i \<le> snd r \<and> snd r < int i + int (length (c # cs))"
    by (cases "filter (\<lambda>c. Type c = ''Reconciled'') cs = []") auto
  ultimately show ?case by blast
qed

lemma desiredCondition_fields:
  "Type (desiredCondition desired t1 t2) = ''Reconciled''
   \<and> Status (desiredCondition desired t1 t2)
       = (if AckedInstances desired = TotalInstances desired then ''True'' else ''False'')
   \<and> Message (desiredCondition desired t1 t2)
       = formatInt (AckedInstances desired) @ ''/'' @ formatInt (TotalInstances desired)
         @ '' proxies up to date.''"
  by (simp add: desiredCondition_def boolToConditionStatus_def)

text \<open>
  Where the current status parses to conditions none of which is a nil pointer, or
  does not parse: the computed condition has type \<open>Reconciled\<close>, status \<open>True\<close> exactly
  when the acked and total counts are equal, and the message \<open><acked>/<total> proxies
  up to date.\<close>; it is in the status that \<open>ReconcileStatuses\<close> returns; and a write is
  reported as needed exactly when the status does not parse, has no \<open>Reconciled\<close>
  condition, or the message or the status of its (last) \<open>Reconciled\<close> condition differs
  from the computed one.
\<close>

lemma ReconcileStatuses_non_nil:
  "(GetTypedStatus current = None \<longrightarrow>
      ReconcileStatuses GetTypedStatus current desired t1 t2
        = Inr (True, \<lparr> Conditions = [Some (desiredCondition desired t1 t2)] \<rparr>))
   \<and> (GetTypedStatus current = Some st \<and> Conditions st = map Some cs \<longrightarrow>
        (\<exists>st'. ReconcileStatuses GetTypedStatus current desired t1 t2
                = Inr (filter (\<lambda>c. Type c = ''Reconciled'') cs = []
                       \<or> Message (last (filter (\<lambda>c. Type c = ''Reconciled'') cs))
                          \<noteq> Message (desiredCondition desired t1 t2)
                       \<or> Status (last (filter (\<lambda>c. Type c = ''Reconciled'') cs))
                          \<noteq> Status (desiredCondition desired t1 t2),
                       st')
              \<and> Some (desiredCondition desired t1 t2) \<in> set (Conditions st')))
   \<and> Type (desiredCondition desired t1 t2) = ''Reconciled''
   \<and> Status (desiredCondition desired t1 t2)
       = (if AckedInstances desired = TotalInstances desired then ''True'' else ''False'')
   \<and> Message (desiredCondition desired t1 t2)
       = formatInt (AckedInstances desired) @ ''/'' @ formatInt (TotalInstances desired)
         @ '' proxies up to date.''"
proof (intro conjI impI)
  show "ReconcileStatuses GetTypedStatus current desired t1 t2
        = Inr (True, \<lparr> Conditions = [Some (desiredCondition desired t1 t2)] \<rparr>)"
    if "GetTypedStatus current = None"
    using that by (simp add: ReconcileStatuses_def Let_def)
next
  let ?rs = "filter (\<lambda>c. Type c = ''Reconciled'') cs"
  let ?dc = "desiredCondition desired t1 t2"
  assume h: "GetTypedStatus current = Some st \<and> Conditions st = map Some cs"
  obtain r where r: "findReconciled (map Some cs) 0 (None, - 1) = Inr r"
    and e: "?rs = [] \<longrightarrow> r = (None, - 1)"
    and n: "?rs \<noteq> [] \<longrightarrow> fst r = Some (last ?rs) \<and> int 0 \<le> snd r \<and> snd r < int 0 + int (length cs)"
    using findReconciled_Some [of cs 0 "(None, - 1)"] by blast
  show "\<exists>st'. ReconcileStatuses GetTypedStatus current desired t1 t2
                = Inr (?rs = [] \<or> Message (last ?rs) \<noteq> Message ?dc
                       \<or> Status (last ?rs) \<noteq> Status ?dc, st')
              \<and> Some ?dc \<in> set (Conditions st')"
  proof (cases "?rs = []")
    case True
    with e have "r = (None, - 1)" by simp
    with h r True show ?thesis by (simp add: ReconcileStatuses_def Let_def)
  next
    case False
    with n have f: "fst r = Some (last ?rs)" and lo: "0 \<le> snd r" and hi: "snd r < int (length cs)"
      by simp_all
    obtain cc idx where ri: "r = (cc, idx)" by (cases r)
    from hi lo ri have "nat idx < length (map Some cs)" by simp
    then have "Some ?dc \<in> set ((map Some cs)[nat idx := Some ?dc])"
      by (rule set_update_memI)
    with h r ri f lo False show ?thesis
      by (auto simp add: ReconcileStatuses_def Let_def)
  qed
qed (simp_all add: desiredCondition_fields)


lemma ReconcileStatuses_non_nil_example:
  "(\<lambda>u::unit. None) () = None
   \<and> ReconcileStatuses (\<lambda>u::unit. None) () \<lparr>AckedInstances = 10, TotalInstances = 10\<rparr> 1 2
       = Inr (True, \<lparr>Conditions = [Some \<lparr> Type = ''Reconciled'', Status = ''True'',
                LastProbeTime = 1, LastTransitionTime = 2,
                Message = ''10/10 proxies up to date.'' \<rparr>]\<rparr>)
   \<and> Some \<lparr>Conditions = [Some exCondition]\<rparr> = Some \<lparr>Conditions = [Some exCondition]\<rparr>
   \<and> Conditions \<lparr>Conditions = [Some exCondition]\<rparr> = map Some [exCondition]
   \<and> ReconcileStatuses Some \<lparr>Conditions = [Some exCondition]\<rparr>
         \<lparr>AckedInstances = 5, TotalInstances = 10\<rparr> 1 2
       = Inr (True, \<lparr>Conditions = [Some \<lparr> Type = ''Reconciled'', Status = ''False'',
                LastProbeTime = 1, LastTransitionTime = 2,
                Message = ''5/10 proxies up to date.'' \<rparr>]\<rparr>)"
  using ReconcileStatuses_non_nil [of "\<lambda>u::unit. None" "()" "\<lparr>AckedInstances = 10, TotalInstances = 10\<rparr>" 1 2]
    ReconcileStatuses_non_nil [where GetTypedStatus = Some
      and current = "\<lparr>Conditions = [Some exCondition]\<rparr>"
      and st = "\<lparr>Conditions = [Some exCondition]\<rparr>" and cs = "[exCondition]"
      and desired = "\<lparr>AckedInstances = 5, TotalInstances = 10\<rparr>" and ?t1.0 = 1 and ?t2.0 = 2]
  by (simp add: ReconcileStatuses_def desiredCondition_def boolToConditionStatus_def
      formatInt_def formatNat.simps exCondition_def)


text \<open>A nil pointer among the parsed conditions makes the loop panic.\<close>

lemma findReconciled_nil:
  assumes "None \<in> set conditions"
  shows "findReconciled conditions i found = Inl NilPointerDereference"
  using assms
proof (induction conditions arbitrary: i found)
  case Nil
  then show ?case by simp
next
  case (Cons c cs)
  then show ?case by (cases c) auto
qed

lemma ReconcileStatuses_nil:
  assumes "GetTypedStatus current = Some st" and "None \<in> set (Conditions st)"
  shows "ReconcileStatuses GetTypedStatus current desired t1 t2 = Inl NilPointerDereference"
  using assms by (simp add: ReconcileStatuses_def Let_def findReconciled_nil)

text \<open>
  C9, at the input where the code departs from it. The current status parses (the
  conversion returns it without error) and its conditions are a \<open>Reconciled\<close> condition
  followed by a null entry, as the JSON \<open>{"conditions": [{...}, null]}\<close> gives.
  \<open>ReconcileStatuses\<close> computes the condition and then panics in its loop, reading
  \<open>c.Type\<close> through the nil pointer: it neither produces a status with the
  \<open>Reconciled\<close> condition nor reports whether a write is needed.
\<close>

theorem ReconcileStatuses_nil_condition:
  "ReconcileStatuses Some \<lparr>Conditions = [Some exCondition, None]\<rparr> desired t1 t2
     = Inl NilPointerDereference"
  by (simp add: ReconcileStatuses_def Let_def)

theorem ReconcileStatuses_nil_condition_witness:
  "ReconcileStatuses Some \<lparr>Conditions = [Some exCondition, None]\<rparr>
     \<lparr>AckedInstances = 5, TotalInstances = 10\<rparr> 1 2
     = Inl NilPointerDereference"
  by (rule ReconcileStatuses_nil_condition)


section \<open>Properties of the destination rule lookup\<close>

lemma getExported_stage:
  "exportedStage msm (exportedDestRulesByNamespace ps ns) h c
     = map_option Some (getExportedDestinationRuleFromNamespace msm ps ns h c)"
  by (simp add: exportedStage_def getExportedDestinationRuleFromNamespace_def Let_def
      split: option.splits)

lemma exportedDestinationRule_stages:
  "exportedDestinationRule msm ps proxy' svc =
     (case firstHit
        [ if serviceNamespace ps proxy' svc \<noteq> []
          then exportedStage msm (exportedDestRulesByNamespace ps (serviceNamespace ps proxy' svc))
                 (Hostname svc) (ConfigNamespace proxy')
          else None,
          exportedStage msm (exportedDestRulesByNamespace ps (RootNamespace (Mesh ps)))
            (Hostname svc) (ConfigNamespace proxy') ] of
        Some r \<Rightarrow> r | None \<Rightarrow> None)"
  by (simp add: exportedDestinationRule_def getExported_stage Let_def split: option.splits)

lemma DestinationRule_not_delegating:
  assumes "\<not> (SidecarScope proxy' \<noteq> None \<and> proxy_Type proxy' = SidecarProxy)"
  shows "DestinationRule msm ps proxy' (Some svc) =
     (if ConfigNamespace proxy' \<noteq> RootNamespace (Mesh ps) then
        (case namespaceLocalDestRules ps (ConfigNamespace proxy') of
           None \<Rightarrow> Inr (exportedDestinationRule msm ps proxy' svc)
         | Some rules \<Rightarrow>
             (case msm (Hostname svc) (hosts rules) of
                Some hostname' \<Rightarrow> Inr (destRule rules hostname')
              | None \<Rightarrow> Inr (exportedDestinationRule msm ps proxy' svc)))
      else
        (case rootNamespaceLocalDestRules ps of
           None \<Rightarrow> Inl NilPointerDereference
         | Some rules \<Rightarrow>
             (case msm (Hostname svc) (hosts rules) of
                Some hostname' \<Rightarrow> Inr (destRule rules hostname')
              | None \<Rightarrow> Inr (exportedDestinationRule msm ps proxy' svc))))"
proof (cases "SidecarScope proxy'")
  case None
  then show ?thesis by (simp add: DestinationRule_def)
next
  case (Some sc)
  with assms have "proxy_Type proxy' = Router" by (cases "proxy_Type proxy'") simp_all
  with Some show ?thesis by (simp add: DestinationRule_def)
qed

text \<open>
  C3. For a proxy that does not delegate to a user-supplied sidecar scope and a non-nil
  service, in a snapshot whose destination rules have been set (the root-namespace-local
  bucket is not nil), \<open>DestinationRule\<close> returns the first hit of four stages tried in
  this order, or nil when none hits: (a) the most specific host match among the
  namespace-local rules of the proxy's namespace, when the proxy is not in the root
  namespace; (b) the same among the root-namespace-local rules, when it is; (c) the
  exported rules of the service's namespace, only when the export set of the matched
  rule is empty, contains public or contains the proxy's namespace; (d) the exported
  rules of the root namespace under the same export test.
\<close>

theorem DestinationRule_search_order:
  assumes "\<not> (SidecarScope proxy' \<noteq> None \<and> proxy_Type proxy' = SidecarProxy)"
    and "rootNamespaceLocalDestRules ps \<noteq> None"
  shows "DestinationRule msm ps proxy' (Some svc) = Inr (DestinationRule_spec msm ps proxy' svc)"
proof -
  from assms(2) obtain rootRules where root: "rootNamespaceLocalDestRules ps = Some rootRules"
    by blast
  note unfold = DestinationRule_not_delegating [OF assms(1)] DestinationRule_spec_def
    DestinationRule_stages_def localStage_def exportedDestinationRule_stages
  show ?thesis
  proof (cases "ConfigNamespace proxy' = RootNamespace (Mesh ps)")
    case True
    then show ?thesis
      by (cases "msm (Hostname svc) (hosts rootRules)") (simp_all add: unfold root)
  next
    case False
    then show ?thesis
    proof (cases "namespaceLocalDestRules ps (ConfigNamespace proxy')")
      case None
      with False show ?thesis by (simp add: unfold)
    next
      case (Some rules)
      with False show ?thesis
        by (cases "msm (Hostname svc) (hosts rules)") (simp_all add: unfold)
    qed
  qed
qed

theorem DestinationRule_search_order_witness:
  "\<not> (SidecarScope \<lparr> ConfigNamespace = ''bookinfo'', SidecarScope = None, proxy_Type = Router \<rparr> \<noteq> None
      \<and> proxy_Type \<lparr> ConfigNamespace = ''bookinfo'', SidecarScope = None, proxy_Type = Router \<rparr>
          = SidecarProxy)
   \<and> rootNamespaceLocalDestRules exSnapshot \<noteq> None
   \<and> DestinationRule exactHostMatch exSnapshot
        \<lparr> ConfigNamespace = ''bookinfo'', SidecarScope = None, proxy_Type = Router \<rparr>
        (Some exReviews)
       = Inr (Some (Config ''default'' ''reviews-exported''))
   \<and> DestinationRule_spec exactHostMatch exSnapshot
        \<lparr> ConfigNamespace = ''bookinfo'', SidecarScope = None, proxy_Type = Router \<rparr> exReviews
       = Some (Config ''default'' ''reviews-exported'')"
proof -
  have a: "\<not> (SidecarScope \<lparr> ConfigNamespace = ''bookinfo'', SidecarScope = None, proxy_Type = Router \<rparr> \<noteq> None
      \<and> proxy_Type \<lparr> ConfigNamespace = ''bookinfo'', SidecarScope = None, proxy_Type = Router \<rparr>
          = SidecarProxy)"
    by simp
  have b: "rootNamespaceLocalDestRules exSnapshot \<noteq> None"
    by (simp add: exSnapshot_def)
  have c: "DestinationRule_spec exactHostMatch exSnapshot
        \<lparr> ConfigNamespace = ''bookinfo'', SidecarScope = None, proxy_Type = Router \<rparr> exReviews
       = Some (Config ''default'' ''reviews-exported'')"
    by (simp add: DestinationRule_spec_def DestinationRule_stages_def localStage_def
        exportedStage_def serviceNamespace_def exSnapshot_def exMesh_def exReviews_def
        exRules_def exactHostMatch_def NewPushContext_def visibility_Public_def)
  from DestinationRule_search_order [OF a b, of exactHostMatch exReviews] a b c
  show ?thesis by simp
qed


section \<open>Properties of the service registry\<close>

lemma exportToNamespaces_fields:
  "publicServices (exportToNamespaces s ns es ps) = publicServices ps"
  "defaultServiceExportTo (exportToNamespaces s ns es ps) = defaultServiceExportTo ps"
  by (induction es arbitrary: ps) simp_all

lemma servicesInBuckets_exportToNamespaces:
  "servicesInBuckets (exportToNamespaces s ns es ps)
     = servicesInBuckets ps \<union> (if es = [] then {} else {s})"
proof (induction es arbitrary: ps)
  case Nil
  then show ?case by simp
next
  case (Cons e es)
  let ?ps' = "if e = visibility_Private \<or> e = ns
        then ps\<lparr>privateServicesByNamespace :=
                 (privateServicesByNamespace ps)(ns := privateServicesByNamespace ps ns @ [s])\<rparr>
        else ps\<lparr>servicesExportedToNamespace :=
                 (servicesExportedToNamespace ps)(e := servicesExportedToNamespace ps e @ [s])\<rparr>"
  have step: "servicesInBuckets ?ps' = servicesInBuckets ps \<union> {s}"
    by (auto simp: servicesInBuckets_def split: if_splits)
  have "servicesInBuckets (exportToNamespaces s ns (e # es) ps)
          = servicesInBuckets (exportToNamespaces s ns es ?ps')"
    by simp
  also have "\<dots> = servicesInBuckets ?ps' \<union> (if es = [] then {} else {s})"
    by (rule Cons.IH)
  finally show ?case using step by auto
qed

lemma servicesInBuckets_indexService [simp]:
  "servicesInBuckets (indexService s ps) = servicesInBuckets ps"
  by (simp add: servicesInBuckets_def indexService_def)

lemma defaultServiceExportTo_indexService [simp]:
  "defaultServiceExportTo (indexService s ps) = defaultServiceExportTo ps"
  by (simp add: indexService_def)

lemma servicesInBuckets_registerService:
  "servicesInBuckets (registerService s ps)
     = servicesInBuckets ps \<union> (if bucketed (defaultServiceExportTo ps) s then {s} else {})"
proof -
  have priv: "servicesInBuckets (ps\<lparr>privateServicesByNamespace :=
                  (privateServicesByNamespace ps)(ns := privateServicesByNamespace ps ns @ [s])\<rparr>)
              = servicesInBuckets ps \<union> {s}" for ns
    by (auto simp: servicesInBuckets_def split: if_splits)
  have pub: "servicesInBuckets (ps\<lparr>publicServices := publicServices ps @ [s]\<rparr>)
              = servicesInBuckets ps \<union> {s}"
    by (auto simp: servicesInBuckets_def)
  show ?thesis
    by (simp add: registerService_def bucketed_def Let_def priv pub
        servicesInBuckets_exportToNamespaces)
qed

lemma defaultServiceExportTo_registerService [simp]:
  "defaultServiceExportTo (registerService s ps) = defaultServiceExportTo ps"
  by (simp add: registerService_def Let_def exportToNamespaces_fields)

lemma servicesInBuckets_fold:
  "servicesInBuckets (fold registerService svcs ps)
     = servicesInBuckets ps \<union> Set.filter (bucketed (defaultServiceExportTo ps)) (set svcs)"
proof (induction svcs arbitrary: ps)
  case Nil
  then show ?case by simp
next
  case (Cons s svcs)
  have "servicesInBuckets (fold registerService (s # svcs) ps)
          = servicesInBuckets (registerService s ps)
            \<union> Set.filter (bucketed (defaultServiceExportTo ps)) (set svcs)"
    using Cons.IH [of "registerService s ps"] by simp
  then show ?case
    by (auto simp: servicesInBuckets_registerService)
qed

lemma servicesInBuckets_initServiceAccounts [simp]:
  "servicesInBuckets (initServiceAccounts env svcs ps) = servicesInBuckets ps"
  by (induction svcs arbitrary: ps) (simp_all add: servicesInBuckets_def)

text \<open>
  C6, as amended. After \<open>initServiceRegistry\<close> has run on a snapshot with empty buckets
  and a store that lists its services without error, the union of \<open>publicServices\<close>,
  the values of \<open>privateServicesByNamespace\<close> and the values of
  \<open>servicesExportedToNamespace\<close> is the set of the store's services that the export
  rules let in: a service with an empty export set when the mesh default names private
  or public, and a service with a non-empty export set that contains public or does not
  contain none. It is a subset of the store's list, and a service whose export set
  contains none and not public is in none of the three buckets.
\<close>

theorem initServiceRegistry_buckets:
  assumes "envServices env = Inr services"
    and "publicServices ps = []"
    and "privateServicesByNamespace ps = (\<lambda>ns. [])"
    and "servicesExportedToNamespace ps = (\<lambda>ns. [])"
  shows "fst (initServiceRegistry env ps) = None
       \<and> servicesInBuckets (snd (initServiceRegistry env ps))
           = Set.filter (bucketed (defaultServiceExportTo ps)) (set services)
       \<and> servicesInBuckets (snd (initServiceRegistry env ps)) \<subseteq> set services
       \<and> (visibility_None \<in> set (ExportTo (Attributes s))
            \<and> visibility_Public \<notin> set (ExportTo (Attributes s))
          \<longrightarrow> s \<notin> servicesInBuckets (snd (initServiceRegistry env ps)))"
proof -
  from assms(2-4) have empty: "servicesInBuckets ps = {}"
    by (simp add: servicesInBuckets_def)
  from assms(1) have res: "snd (initServiceRegistry env ps)
      = initServiceAccounts env (sortServicesByCreationTime services)
          (fold registerService (sortServicesByCreationTime services) ps)"
    and ok: "fst (initServiceRegistry env ps) = None"
    by (simp_all add: initServiceRegistry_def Let_def)
  have eq: "servicesInBuckets (snd (initServiceRegistry env ps))
           = Set.filter (bucketed (defaultServiceExportTo ps)) (set services)"
    by (simp add: res servicesInBuckets_fold empty sortServicesByCreationTime_def)
  have "s \<notin> Set.filter (bucketed (defaultServiceExportTo ps)) (set services)"
    if "visibility_None \<in> set (ExportTo (Attributes s))
        \<and> visibility_Public \<notin> set (ExportTo (Attributes s))"
    using that by (auto simp: bucketed_def)
  with eq ok show ?thesis by auto
qed

theorem initServiceRegistry_buckets_witness:
  "envServices (exEnv (Inr [exHidden, exBoth, exReviews])) = Inr [exHidden, exBoth, exReviews]
   \<and> publicServices NewPushContext = []
   \<and> privateServicesByNamespace NewPushContext = (\<lambda>ns. [])
   \<and> servicesExportedToNamespace NewPushContext = (\<lambda>ns. [])
   \<and> visibility_None \<in> set (ExportTo (Attributes exHidden))
   \<and> visibility_Public \<notin> set (ExportTo (Attributes exHidden))
   \<and> exHidden \<notin> servicesInBuckets
        (snd (initServiceRegistry (exEnv (Inr [exHidden, exBoth, exReviews])) NewPushContext))
   \<and> servicesInBuckets
        (snd (initServiceRegistry (exEnv (Inr [exHidden, exBoth, exReviews])) NewPushContext))
       = {exBoth, exReviews}"
proof -
  have env: "envServices (exEnv (Inr [exHidden, exBoth, exReviews]))
               = Inr [exHidden, exBoth, exReviews]"
    by (simp add: exEnv_def)
  have new: "publicServices NewPushContext = []"
    "privateServicesByNamespace NewPushContext = (\<lambda>ns. [])"
    "servicesExportedToNamespace NewPushContext = (\<lambda>ns. [])"
    "defaultServiceExportTo NewPushContext = []"
    by (simp_all add: NewPushContext_def)
  have hidden: "visibility_None \<in> set (ExportTo (Attributes exHidden))"
    "visibility_Public \<notin> set (ExportTo (Attributes exHidden))"
    by (simp_all add: exHidden_def visibility_None_def visibility_Public_def)
  have f: "filter (bucketed []) [exHidden, exBoth, exReviews] = [exBoth, exReviews]"
    by (simp add: bucketed_def exHidden_def exBoth_def exReviews_def
        visibility_None_def visibility_Public_def)
  have filter: "Set.filter (bucketed []) (set [exHidden, exBoth, exReviews]) = {exBoth, exReviews}"
    unfolding filter_set f by simp
  note t = initServiceRegistry_buckets [OF env new(1-3), of exHidden]
  from t hidden have 1: "exHidden \<notin> servicesInBuckets
        (snd (initServiceRegistry (exEnv (Inr [exHidden, exBoth, exReviews])) NewPushContext))"
    by blast
  from t have "servicesInBuckets
        (snd (initServiceRegistry (exEnv (Inr [exHidden, exBoth, exReviews])) NewPushContext))
       = Set.filter (bucketed (defaultServiceExportTo NewPushContext))
           (set [exHidden, exBoth, exReviews])"
    by blast
  then have 2: "servicesInBuckets
        (snd (initServiceRegistry (exEnv (Inr [exHidden, exBoth, exReviews])) NewPushContext))
       = {exBoth, exReviews}"
    unfolding new(4) filter .
  show ?thesis
    by (intro conjI env new(1) new(2) new(3) hidden 1 2)
qed

text \<open>
  C6 as stated fails. With a store of two services, one exported to none only and one
  exported to both public and none, the union of the buckets is not the store's list
  (the first service is dropped), and the second service, whose export set contains
  none, is in \<open>publicServices\<close>: public is tested before none.
\<close>

theorem initServiceRegistry_buckets_counterexample:
  "servicesInBuckets (snd (initServiceRegistry (exEnv (Inr [exHidden, exBoth]))
        (NewPushContext\<lparr>defaultServiceExportTo := [visibility_Public]\<rparr>)))
     \<noteq> set [exHidden, exBoth]
   \<and> visibility_None \<in> set (ExportTo (Attributes exBoth))
   \<and> exBoth \<in> set (publicServices (snd (initServiceRegistry (exEnv (Inr [exHidden, exBoth]))
        (NewPushContext\<lparr>defaultServiceExportTo := [visibility_Public]\<rparr>))))
   \<and> exBoth \<in> servicesInBuckets (snd (initServiceRegistry (exEnv (Inr [exHidden, exBoth]))
        (NewPushContext\<lparr>defaultServiceExportTo := [visibility_Public]\<rparr>)))"
proof -
  define ps' where "ps' = snd (initServiceRegistry (exEnv (Inr [exHidden, exBoth]))
        (NewPushContext\<lparr>defaultServiceExportTo := [visibility_Public]\<rparr>))"
  have pub: "publicServices ps' = [exBoth]"
    and priv: "privateServicesByNamespace ps' = (\<lambda>ns. [])"
    and exp: "servicesExportedToNamespace ps' = (\<lambda>ns. [])"
    by (simp_all add: ps'_def initServiceRegistry_def exEnv_def sortServicesByCreationTime_def
        exHidden_def exBoth_def registerService_def NewPushContext_def
        visibility_None_def visibility_Public_def)
  then have b: "servicesInBuckets ps' = {exBoth}"
    by (simp add: servicesInBuckets_def)
  have "exHidden \<noteq> exBoth" by (simp add: exHidden_def exBoth_def)
  then have "servicesInBuckets ps' \<noteq> set [exHidden, exBoth]"
    using b by auto
  moreover have "visibility_None \<in> set (ExportTo (Attributes exBoth))"
    by (simp add: exBoth_def visibility_None_def)
  ultimately show ?thesis
    using pub b unfolding ps'_def by simp
qed


section \<open>Properties of the snapshot build\<close>

lemma orReturn_id: "orReturn r (\<lambda>b. (None, b)) = r"
  by (cases r) (simp add: orReturn_def split: option.splits)

lemma runSteps_Nil_fun: "runSteps [] = (\<lambda>b. (None, b))"
  by (rule ext) simp

lemma runSteps_Cons_fun: "runSteps (step # steps) = (\<lambda>b. orReturn (step b) (runSteps steps))"
  by (rule ext) simp

lemma createNewContext_runSteps:
  "createNewContext env b =
     runSteps (map (\<lambda>c. call (passOf c) (runPass c env)) buildOrder)
       (fst b, snd b @ [CallCreateNewContext])"
  unfolding createNewContext_def buildOrder_def list.map runSteps_Cons_fun runSteps_Nil_fun
    orReturn_id passOf.simps runPass.simps
  by (rule refl)

lemma updateContext_runSteps:
  "updateContext env old req b =
     runSteps (map (updateStep env old req) buildOrder) (fst b, snd b @ [CallUpdateContext])"
  unfolding updateContext_def buildOrder_def list.map runSteps_Cons_fun runSteps_Nil_fun
    orReturn_id updateStep_def passOf.simps runPass.simps classChanged.simps copyIndex.simps
  by (rule refl)

lemma call_result:
  "call c f b = (fst (f (fst b)), (snd (f (fst b)), snd b @ [c]))"
  by (simp add: call_def split: prod.splits)

lemma orReturn_None:
  assumes "orReturn r rest = (None, b')"
  shows "fst r = None \<and> rest (snd r) = (None, b')"
  using assms by (cases "fst r") (simp_all add: orReturn_def)

lemma otherFields_exportToNamespaces [simp]:
  "otherFields (exportToNamespaces s ns es ps) = otherFields ps"
  by (induction es arbitrary: ps) (simp_all add: otherFields_def)

lemma otherFields_registerService [simp]:
  "otherFields (registerService s ps) = otherFields ps"
proof -
  have "otherFields (indexService s p) = otherFields p" for p
    by (simp add: otherFields_def indexService_def)
  moreover have "otherFields (ps\<lparr>publicServices := x\<rparr>) = otherFields ps" for x
    by (simp add: otherFields_def)
  moreover have "otherFields (ps\<lparr>privateServicesByNamespace := y\<rparr>) = otherFields ps" for y
    by (simp add: otherFields_def)
  ultimately show ?thesis
    by (simp add: registerService_def Let_def)
qed

lemma otherFields_fold [simp]:
  "otherFields (fold registerService svcs ps) = otherFields ps"
  by (induction svcs arbitrary: ps) simp_all

lemma otherFields_initServiceAccounts [simp]:
  "otherFields (initServiceAccounts env svcs ps) = otherFields ps"
  by (induction svcs arbitrary: ps) (simp_all add: otherFields_def)

lemma otherFields_initServiceRegistry:
  "otherFields (snd (initServiceRegistry env ps)) = otherFields ps"
  by (simp add: initServiceRegistry_def Let_def split: sum.splits)

lemma sameIndex_otherFields:
  assumes "otherFields ps' = otherFields ps" and "c \<noteq> ServicesIndex"
  shows "sameIndex c ps' old = sameIndex c ps old"
  using assms by (cases c) (simp_all add: otherFields_def)

lemma runPass_frame:
  assumes "c' \<noteq> c"
  shows "sameIndex c' (snd (runPass c env ps)) old = sameIndex c' ps old"
proof (cases c)
  case ServicesIndex
  with assms show ?thesis
    by (simp add: sameIndex_otherFields [OF otherFields_initServiceRegistry])
next
  case VirtualServicesIndex
  with assms show ?thesis
    by (cases c') (simp_all add: initVirtualServices_def Let_def split: sum.splits prod.splits)
next
  case DestinationRulesIndex
  with assms show ?thesis
    by (cases c') (simp_all add: initDestinationRules_def split: sum.splits prod.splits)
next
  case AuthnIndex
  with assms show ?thesis
    by (cases c') (simp_all add: initAuthnPolicies_def split: prod.splits)
next
  case AuthzIndex
  with assms show ?thesis
    by (cases c') (simp_all add: initAuthorizationPolicies_def split: prod.splits)
next
  case EnvoyFiltersIndex
  with assms show ?thesis
    by (cases c') (simp_all add: initEnvoyFilters_def split: sum.splits)
next
  case GatewaysIndex
  with assms show ?thesis
    by (cases c') (simp_all add: initGateways_def split: sum.splits prod.splits)
next
  case SidecarScopesIndex
  with assms show ?thesis
    by (cases c') (simp_all add: initSidecarScopes_def split: sum.splits)
qed

lemma copyIndex_frame:
  assumes "c' \<noteq> c"
  shows "sameIndex c' (copyIndex c old ps) old' = sameIndex c' ps old'"
  using assms by (cases c; cases c') simp_all

lemma copyIndex_same: "sameIndex c (copyIndex c old ps) old"
  by (cases c) simp_all

lemma updateStep_frame:
  assumes "c' \<noteq> c"
  shows "sameIndex c' (fst (snd (updateStep env old req c b))) old' = sameIndex c' (fst b) old'"
  using assms
  by (simp add: updateStep_def call_result reuse_def runPass_frame copyIndex_frame)

lemma updateStep_log:
  "snd (snd (updateStep env old req c b))
     = snd b @ (if classChanged c req then [passOf c] else [])"
  by (simp add: updateStep_def call_result reuse_def)

lemma updateStep_copied:
  assumes "\<not> classChanged c req"
  shows "sameIndex c (fst (snd (updateStep env old req c b))) old"
  using assms by (simp add: updateStep_def reuse_def copyIndex_same)

lemma runSteps_update_frame:
  assumes "c' \<notin> set cs"
  shows "sameIndex c' (fst (snd (runSteps (map (updateStep env old req) cs) b))) old'
           = sameIndex c' (fst b) old'"
  using assms
proof (induction cs arbitrary: b)
  case Nil
  then show ?case by simp
next
  case (Cons c cs)
  let ?r = "updateStep env old req c b"
  from Cons.prems have ne: "c' \<noteq> c" and notin: "c' \<notin> set cs" by auto
  show ?case
  proof (cases "fst ?r")
    case None
    then have "runSteps (map (updateStep env old req) (c # cs)) b
                 = runSteps (map (updateStep env old req) cs) (snd ?r)"
      by (simp add: orReturn_def)
    then show ?thesis
      using Cons.IH [OF notin, of "snd ?r"] updateStep_frame [OF ne, of env old req b old']
      by simp
  next
    case (Some e)
    then have "runSteps (map (updateStep env old req) (c # cs)) b = (Some e, snd ?r)"
      by (simp add: orReturn_def)
    then show ?thesis
      using updateStep_frame [OF ne, of env old req b old'] by simp
  qed
qed

lemma runSteps_update_success:
  assumes "runSteps (map (updateStep env old req) cs) b = (None, b')" and "distinct cs"
  shows "snd b' = snd b @ map passOf (filter (\<lambda>c. classChanged c req) cs)
         \<and> (\<forall>c \<in> set cs. \<not> classChanged c req \<longrightarrow> sameIndex c (fst b') old)"
  using assms
proof (induction cs arbitrary: b)
  case Nil
  then show ?case by simp
next
  case (Cons c cs)
  let ?r = "updateStep env old req c b"
  from Cons.prems(1) have "orReturn ?r (runSteps (map (updateStep env old req) cs)) = (None, b')"
    by simp
  from orReturn_None [OF this]
  have rest: "runSteps (map (updateStep env old req) cs) (snd ?r) = (None, b')" by simp
  from Cons.prems(2) have notin: "c \<notin> set cs" and dist: "distinct cs" by simp_all
  from Cons.IH [OF rest dist]
  have log: "snd b' = snd (snd ?r) @ map passOf (filter (\<lambda>c. classChanged c req) cs)"
    and same: "\<forall>c \<in> set cs. \<not> classChanged c req \<longrightarrow> sameIndex c (fst b') old"
    by simp_all
  have here: "sameIndex c (fst b') old" if "\<not> classChanged c req"
  proof -
    have "sameIndex c (fst b') old = sameIndex c (fst (snd ?r)) old"
      using runSteps_update_frame [OF notin, of env old req "snd ?r" old] rest by simp
    with updateStep_copied [OF that] show ?thesis by simp
  qed
  from log have "snd b' = snd b @ map passOf (filter (\<lambda>c. classChanged c req) (c # cs))"
    by (simp add: updateStep_log)
  with same here show ?case by auto
qed

lemma runSteps_update_calls:
  "set (snd (snd (runSteps (map (updateStep env old req) cs) b)))
     \<subseteq> set (snd b) \<union> passOf ` set cs"
proof (induction cs arbitrary: b)
  case Nil
  then show ?case by simp
next
  case (Cons c cs)
  let ?r = "updateStep env old req c b"
  show ?case
  proof (cases "fst ?r")
    case None
    then have "runSteps (map (updateStep env old req) (c # cs)) b
                 = runSteps (map (updateStep env old req) cs) (snd ?r)"
      by (simp add: orReturn_def)
    with Cons.IH [of "snd ?r"] show ?thesis
      by (auto simp: updateStep_log split: if_splits)
  next
    case (Some e)
    then have "runSteps (map (updateStep env old req) (c # cs)) b = (Some e, snd ?r)"
      by (simp add: orReturn_def)
    then show ?thesis by (auto simp: updateStep_log split: if_splits)
  qed
qed

lemma runSteps_calls_prefix:
  "prefix (snd (snd (runSteps (map (\<lambda>c. call (passOf c) (runPass c env)) cs) b)))
          (snd b @ map passOf cs)
   \<and> prefix (snd b) (snd (snd (runSteps (map (\<lambda>c. call (passOf c) (runPass c env)) cs) b)))
   \<and> (fst (runSteps (map (\<lambda>c. call (passOf c) (runPass c env)) cs) b) = None
        \<longrightarrow> snd (snd (runSteps (map (\<lambda>c. call (passOf c) (runPass c env)) cs) b))
            = snd b @ map passOf cs)"
proof (induction cs arbitrary: b)
  case Nil
  then show ?case by simp
next
  case (Cons c cs)
  define r where "r = call (passOf c) (runPass c env) b"
  define R where "R = runSteps (map (\<lambda>c. call (passOf c) (runPass c env)) cs) (snd r)"
  have log: "snd (snd r) = snd b @ [passOf c]"
    by (simp add: r_def call_result)
  have unfold: "runSteps (map (\<lambda>c. call (passOf c) (runPass c env)) (c # cs)) b
          = (case fst r of Some err \<Rightarrow> (Some err, snd r) | None \<Rightarrow> R)"
    unfolding r_def R_def by (simp add: orReturn_def)
  show ?case
  proof (cases "fst r")
    case None
    from Cons.IH [of "snd r"]
    have 1: "prefix (snd (snd R)) (snd (snd r) @ map passOf cs)"
      and 2: "prefix (snd (snd r)) (snd (snd R))"
      and 3: "fst R = None \<longrightarrow> snd (snd R) = snd (snd r) @ map passOf cs"
      unfolding R_def by blast+
    from 2 log have "prefix (snd b) (snd (snd R))"
      by (metis prefix_order.trans prefixI)
    with 1 3 log show ?thesis
      unfolding unfold None by simp
  next
    case (Some e)
    show ?thesis
      unfolding unfold Some using log by simp
  qed
qed

lemma runSteps_update_extends:
  "prefix (snd b) (snd (snd (runSteps (map (updateStep env old req) cs) b)))"
proof (induction cs arbitrary: b)
  case Nil
  then show ?case by simp
next
  case (Cons c cs)
  define r where "r = updateStep env old req c b"
  have log: "prefix (snd b) (snd (snd r))"
    by (simp add: r_def updateStep_log)
  show ?case
  proof (cases "fst r")
    case None
    then have "runSteps (map (updateStep env old req) (c # cs)) b
                 = runSteps (map (updateStep env old req) cs) (snd r)"
      unfolding r_def by (simp add: orReturn_def)
    with Cons.IH [of "snd r"] log show ?thesis
      by (metis prefix_order.trans)
  next
    case (Some e)
    then have "runSteps (map (updateStep env old req) (c # cs)) b = (Some e, snd r)"
      unfolding r_def by (simp add: orReturn_def)
    with log show ?thesis by simp
  qed
qed

lemma createNewContext_calls:
  "prefix (snd (snd (createNewContext env (ps, [])))) fullBuildOrder
   \<and> CallCreateNewContext \<in> set (snd (snd (createNewContext env (ps, []))))
   \<and> CallUpdateContext \<notin> set (snd (snd (createNewContext env (ps, []))))
   \<and> (fst (createNewContext env (ps, [])) = None
        \<longrightarrow> snd (snd (createNewContext env (ps, []))) = fullBuildOrder)"
proof -
  define log where "log = snd (snd (createNewContext env (ps, [])))"
  from runSteps_calls_prefix [of env buildOrder "(ps, [CallCreateNewContext])"]
  have p: "prefix log fullBuildOrder"
    and q: "prefix [CallCreateNewContext] log"
    and r: "fst (createNewContext env (ps, [])) = None \<longrightarrow> log = fullBuildOrder"
    by (simp_all add: log_def createNewContext_runSteps fullBuildOrder_def)
  from q have "CallCreateNewContext \<in> set log"
    by (auto dest: set_mono_prefix)
  moreover have "CallUpdateContext \<notin> set fullBuildOrder"
    by (simp add: fullBuildOrder_def buildOrder_def)
  with p have "CallUpdateContext \<notin> set log"
    by (auto dest: set_mono_prefix)
  ultimately show ?thesis using p r by (simp add: log_def)
qed

lemma updateContext_calls:
  "CallUpdateContext \<in> set (snd (snd (updateContext env old req (ps, []))))
   \<and> CallCreateNewContext \<notin> set (snd (snd (updateContext env old req (ps, []))))"
proof -
  define log where "log = snd (snd (updateContext env old req (ps, [])))"
  from runSteps_update_extends [of "(ps, [CallUpdateContext])" env old req buildOrder]
  have "prefix [CallUpdateContext] log"
    by (simp add: log_def updateContext_runSteps)
  then have "CallUpdateContext \<in> set log"
    by (auto dest: set_mono_prefix)
  moreover from runSteps_update_calls [of env old req buildOrder "(ps, [CallUpdateContext])"]
  have "set log \<subseteq> {CallUpdateContext} \<union> passOf ` set buildOrder"
    by (simp add: log_def updateContext_runSteps)
  then have "CallCreateNewContext \<notin> set log"
    by (auto simp: buildOrder_def)
  ultimately show ?thesis by (simp add: log_def)
qed

lemma InitContext_build:
  assumes "\<not> initDone ps"
  shows "\<exists>ps2. fst (InitContext env old req (ps, [])) =
           fst (if fullBuildRequired old req then createNewContext env (ps2, [])
                else case (old, req) of
                       (Some oldContext, Some r) \<Rightarrow> updateContext env oldContext r (ps2, [])
                     | _ \<Rightarrow> (None, (ps2, [])))
       \<and> snd (snd (InitContext env old req (ps, []))) =
           snd (snd (if fullBuildRequired old req then createNewContext env (ps2, [])
                else case (old, req) of
                       (Some oldContext, Some r) \<Rightarrow> updateContext env oldContext r (ps2, [])
                     | _ \<Rightarrow> (None, (ps2, []))))"
proof -
  have keep: "fst (orReturn r (\<lambda>b'. (None, (f b', snd b')))) = fst r
              \<and> snd (snd (orReturn r (\<lambda>b'. (None, (f b', snd b'))))) = snd (snd r)" for r f
    by (cases "fst r") (simp_all add: orReturn_def)
  show ?thesis
    using assms
    by (intro exI [of _ "initDefaultExportMaps (ps\<lparr>Mesh := envMesh env, Version := envVersion env\<rparr>)"])
      (simp add: InitContext_def Let_def keep fullBuildRequired_def split: option.splits)
qed

lemma passOf_inj: "passOf c = passOf c' \<longleftrightarrow> c = c'"
  by (cases c; cases c') simp_all

lemma in_buildOrder: "c \<in> set buildOrder"
  by (cases c) (simp_all add: buildOrder_def)

text \<open>The calls of \<open>InitContext\<close> on a snapshot that is not initialised.\<close>

lemma InitContext_call_log:
  assumes "\<not> initDone ps"
  shows "(CallCreateNewContext \<in> set (snd (snd (InitContext env old req (ps, []))))
            \<longleftrightarrow> fullBuildRequired old req)
       \<and> (CallUpdateContext \<in> set (snd (snd (InitContext env old req (ps, []))))
            \<longleftrightarrow> \<not> fullBuildRequired old req)
       \<and> (fullBuildRequired old req \<longrightarrow>
            prefix (snd (snd (InitContext env old req (ps, [])))) fullBuildOrder
            \<and> (fst (InitContext env old req (ps, [])) = None \<longrightarrow>
                 snd (snd (InitContext env old req (ps, []))) = fullBuildOrder))
       \<and> fullBuildOrder =
           [CallCreateNewContext, CallInitServiceRegistry, CallInitVirtualServices,
            CallInitDestinationRules, CallInitAuthnPolicies, CallInitAuthorizationPolicies,
            CallInitEnvoyFilters, CallInitGateways, CallInitSidecarScopes]
       \<and> (fullBuildRequired old req \<longleftrightarrow>
            req = None \<or> old = None \<or> (\<exists>oldContext. old = Some oldContext \<and> \<not> initDone oldContext)
            \<or> (\<exists>r. req = Some r \<and> ConfigsUpdated r = {}))"
proof -
  from InitContext_build [OF assms, of env old req] obtain ps2 where
    f: "fst (InitContext env old req (ps, [])) =
           fst (if fullBuildRequired old req then createNewContext env (ps2, [])
                else case (old, req) of
                       (Some oldContext, Some r) \<Rightarrow> updateContext env oldContext r (ps2, [])
                     | _ \<Rightarrow> (None, (ps2, [])))"
    and l: "snd (snd (InitContext env old req (ps, []))) =
           snd (snd (if fullBuildRequired old req then createNewContext env (ps2, [])
                else case (old, req) of
                       (Some oldContext, Some r) \<Rightarrow> updateContext env oldContext r (ps2, [])
                     | _ \<Rightarrow> (None, (ps2, []))))"
    by blast
  have order: "fullBuildOrder =
           [CallCreateNewContext, CallInitServiceRegistry, CallInitVirtualServices,
            CallInitDestinationRules, CallInitAuthnPolicies, CallInitAuthorizationPolicies,
            CallInitEnvoyFilters, CallInitGateways, CallInitSidecarScopes]"
    by (simp add: fullBuildOrder_def buildOrder_def)
  have cond: "fullBuildRequired old req \<longleftrightarrow>
            req = None \<or> old = None \<or> (\<exists>oldContext. old = Some oldContext \<and> \<not> initDone oldContext)
            \<or> (\<exists>r. req = Some r \<and> ConfigsUpdated r = {})"
    by (auto simp: fullBuildRequired_def split: option.splits)
  show ?thesis
  proof (cases "fullBuildRequired old req")
    case True
    with f l createNewContext_calls [of env ps2] order cond show ?thesis by simp
  next
    case False
    then obtain oldContext r where o: "old = Some oldContext" and r: "req = Some r"
      by (auto simp: fullBuildRequired_def split: option.splits)
    with False f l updateContext_calls [of env oldContext r ps2] order cond show ?thesis by simp
  qed
qed

text \<open>The calls of an incremental build that returns no error, and the classes it copies.\<close>

lemma updateContext_call_log:
  assumes "fst (updateContext env old req (ps, [])) = None"
  shows "(CallInitSidecarScopes \<in> set (snd (snd (updateContext env old req (ps, []))))
            \<longleftrightarrow> servicesChanged req \<or> virtualServicesChanged req
                \<or> destinationRulesChanged req \<or> sidecarsChanged req)
       \<and> (CallInitSidecarScopes \<notin> set (snd (snd (updateContext env old req (ps, []))))
            \<longrightarrow> sidecarsByNamespace (fst (snd (updateContext env old req (ps, []))))
                 = sidecarsByNamespace old)
       \<and> (passOf c \<in> set (snd (snd (updateContext env old req (ps, []))))
            \<longleftrightarrow> classChanged c req)
       \<and> (\<not> classChanged c req
            \<longrightarrow> sameIndex c (fst (snd (updateContext env old req (ps, [])))) old)"
proof -
  define b' where "b' = snd (updateContext env old req (ps, []))"
  from assms have run: "runSteps (map (updateStep env old req) buildOrder) (ps, [CallUpdateContext])
                     = (None, b')"
    by (simp add: b'_def updateContext_runSteps prod_eq_iff)
  have "distinct buildOrder" by (simp add: buildOrder_def)
  from runSteps_update_success [OF run this, of ]
  have log: "snd b' = [CallUpdateContext] @ map passOf (filter (\<lambda>c. classChanged c req) buildOrder)"
    and same: "\<forall>c \<in> set buildOrder. \<not> classChanged c req \<longrightarrow> sameIndex c (fst b') old"
    by simp_all
  have called: "passOf k \<in> set (snd b') \<longleftrightarrow> classChanged k req" for k
  proof -
    have "passOf k \<noteq> CallUpdateContext" by (cases k) simp_all
    then have "passOf k \<in> set (snd b')
                 \<longleftrightarrow> passOf k \<in> passOf ` {c \<in> set buildOrder. classChanged c req}"
      by (simp add: log)
    also have "\<dots> \<longleftrightarrow> classChanged k req"
      by (auto simp: passOf_inj in_buildOrder)
    finally show ?thesis .
  qed
  have copied: "sameIndex k (fst b') old" if "\<not> classChanged k req" for k
    using same that in_buildOrder by blast
  from called [of SidecarScopesIndex] copied [of SidecarScopesIndex] called [of c] copied [of c]
  show ?thesis
    unfolding b'_def by simp
qed

lemma updateStep_buildStep:
  "updateStep env old req = buildStep env old (\<lambda>c. classChanged c req)"
  by (intro ext) (simp add: updateStep_def buildStep_def)

lemma call_buildStep:
  "(\<lambda>c. call (passOf c) (runPass c env)) = buildStep env old (\<lambda>c. True)"
  by (intro ext) (simp add: buildStep_def)

lemma snapshotStep_full:
  "snapshotStep env old (\<lambda>c. True) = (\<lambda>c ps. snd (runPass c env ps))"
  by (intro ext) (simp add: snapshotStep_def)

lemma sameIndex_refl [simp]: "sameIndex c ps ps"
  by (cases c) simp_all

lemma runPass_rebuilt:
  assumes "fst (runPass c env ps) = None"
  shows "rebuilt c env ps (snd (runPass c env ps))"
proof (cases c)
  case ServicesIndex
  with assms show ?thesis
    by (cases "envServices env") (simp_all add: initServiceRegistry_def Let_def)
next
  case VirtualServicesIndex
  with assms show ?thesis
    by (auto simp: initVirtualServices_def Let_def split: sum.splits prod.splits)
next
  case DestinationRulesIndex
  with assms show ?thesis
    by (auto simp: initDestinationRules_def split: sum.splits prod.splits)
next
  case AuthnIndex
  with assms show ?thesis
    by (auto simp: initAuthnPolicies_def split: prod.splits)
next
  case AuthzIndex
  with assms show ?thesis
    by (auto simp: initAuthorizationPolicies_def split: prod.splits)
next
  case EnvoyFiltersIndex
  with assms show ?thesis
    by (auto simp: initEnvoyFilters_def split: sum.splits)
next
  case GatewaysIndex
  with assms show ?thesis
    by (auto simp: initGateways_def split: sum.splits prod.splits)
next
  case SidecarScopesIndex
  with assms show ?thesis
    by (auto simp: initSidecarScopes_def split: sum.splits)
qed

lemma rebuilt_sameIndex:
  assumes "sameIndex c after' after" and "rebuilt c env before after"
  shows "rebuilt c env before after'"
  using assms by (cases c) (auto split: sum.splits option.splits)

lemma snapshotStep_frame:
  assumes "c' \<noteq> c"
  shows "sameIndex c' (snapshotStep env old changed c ps) x = sameIndex c' ps x"
  using assms by (simp add: snapshotStep_def runPass_frame copyIndex_frame)

lemma fold_snapshotStep_frame:
  assumes "c' \<notin> set cs"
  shows "sameIndex c' (fold (snapshotStep env old changed) cs ps) x = sameIndex c' ps x"
  using assms by (induction cs arbitrary: ps) (simp_all add: snapshotStep_frame)

lemma buildStep_snapshot:
  assumes "fst (buildStep env old changed c b) = None"
  shows "fst (snd (buildStep env old changed c b)) = snapshotStep env old changed c (fst b)"
    and "changed c \<Longrightarrow> fst (runPass c env (fst b)) = None"
  using assms by (simp_all add: buildStep_def snapshotStep_def call_result reuse_def split: if_splits)

lemma runSteps_build_snapshot:
  assumes "runSteps (map (buildStep env old changed) cs) b = (None, b')"
  shows "fst b' = fold (snapshotStep env old changed) cs (fst b)"
  using assms
proof (induction cs arbitrary: b)
  case Nil
  then show ?case by simp
next
  case (Cons c cs)
  from Cons.prems have "orReturn (buildStep env old changed c b)
      (runSteps (map (buildStep env old changed) cs)) = (None, b')"
    by simp
  from orReturn_None [OF this]
  have ok: "fst (buildStep env old changed c b) = None"
    and rest: "runSteps (map (buildStep env old changed) cs) (snd (buildStep env old changed c b))
                 = (None, b')"
    by simp_all
  from Cons.IH [OF rest] buildStep_snapshot(1) [OF ok] show ?case by simp
qed

lemma runSteps_build_passes:
  assumes "runSteps (map (buildStep env old changed) cs) b = (None, b')"
    and "cs = pre @ c # post" and "changed c"
  shows "fst (runPass c env (fold (snapshotStep env old changed) pre (fst b))) = None"
  using assms
proof (induction cs arbitrary: b pre)
  case Nil
  then show ?case by simp
next
  case (Cons k cs)
  from Cons.prems(1) have "orReturn (buildStep env old changed k b)
      (runSteps (map (buildStep env old changed) cs)) = (None, b')"
    by simp
  from orReturn_None [OF this]
  have ok: "fst (buildStep env old changed k b) = None"
    and rest: "runSteps (map (buildStep env old changed) cs) (snd (buildStep env old changed k b))
                 = (None, b')"
    by simp_all
  show ?case
  proof (cases pre)
    case Nil
    with Cons.prems(2) have "k = c" by simp
    with Nil buildStep_snapshot(2) [OF ok] Cons.prems(3) show ?thesis by simp
  next
    case (Cons k' pre')
    with Cons.prems(2) have "k' = k" and cs: "cs = pre' @ c # post" by simp_all
    from Cons.IH [OF rest cs Cons.prems(3)] buildStep_snapshot(1) [OF ok] Cons \<open>k' = k\<close>
    show ?thesis by simp
  qed
qed

lemma build_rebuilt:
  assumes run: "runSteps (map (buildStep env old changed) buildOrder) b = (None, b')"
    and ch: "changed c"
  shows "rebuilt c env (snapshotBefore env old changed c (fst b)) (fst b')"
proof -
  have "c \<in> set buildOrder" by (rule in_buildOrder)
  from split_list_first [OF this] obtain pre post where
    split: "buildOrder = pre @ c # post" and pre: "c \<notin> set pre"
    by blast
  have "distinct buildOrder" by (simp add: buildOrder_def)
  then have "distinct (pre @ c # post)" by (simp only: split)
  then have post: "c \<notin> set post" by simp
  from pre have "takeWhile (\<lambda>k. k \<noteq> c) (pre @ c # post) = pre"
    by (subst takeWhile_append2) auto
  with split have before: "snapshotBefore env old changed c (fst b)
      = fold (snapshotStep env old changed) pre (fst b)"
    by (simp add: snapshotBefore_def)
  define p where "p = fold (snapshotStep env old changed) pre (fst b)"
  define q where "q = snd (runPass c env p)"
  from runSteps_build_passes [OF run split ch] have "fst (runPass c env p) = None"
    by (simp add: p_def)
  then have r: "rebuilt c env p q"
    unfolding q_def by (rule runPass_rebuilt)
  from runSteps_build_snapshot [OF run]
  have "fst b' = fold (snapshotStep env old changed) (pre @ c # post) (fst b)"
    by (simp only: split)
  with ch have "fst b' = fold (snapshotStep env old changed) post q"
    by (simp add: p_def q_def snapshotStep_def)
  then have "sameIndex c (fst b') q"
    using fold_snapshotStep_frame [OF post, of env old changed q q] by simp
  from rebuilt_sameIndex [OF this r] show ?thesis
    by (simp add: before p_def)
qed

lemma sameIndex_finishContext [simp]: "sameIndex c (finishContext env ps) ps"
  by (cases c)
    (simp_all add: finishContext_def initClusterLocalHosts_def initMeshNetworks_def
      split: option.splits)

lemma orReturn_finish:
  "fst (orReturn r (\<lambda>b'. (None, (f b', snd b')))) = fst r"
  "fst r = None \<Longrightarrow> fst (snd (orReturn r (\<lambda>b'. (None, (f b', snd b'))))) = f (snd r)"
  by (cases "fst r"; simp add: orReturn_def)+

lemma InitContext_error:
  assumes "\<not> initDone ps"
  shows "fst (InitContext env old req (ps, [])) =
           fst (if fullBuildRequired old req then createNewContext env (prepareContext env ps, [])
                else case (old, req) of
                       (Some oldContext, Some r) \<Rightarrow>
                         updateContext env oldContext r (prepareContext env ps, [])
                     | _ \<Rightarrow> (None, (prepareContext env ps, [])))"
  using assms
  by (simp add: InitContext_def Let_def orReturn_finish(1) fullBuildRequired_def
      prepareContext_def split: option.splits)

lemma InitContext_snapshot:
  assumes "\<not> initDone ps" and "fst (InitContext env old req (ps, [])) = None"
  shows "fst (snd (InitContext env old req (ps, []))) =
           finishContext env
            (fst (snd (if fullBuildRequired old req
                then createNewContext env (prepareContext env ps, [])
                else case (old, req) of
                       (Some oldContext, Some r) \<Rightarrow>
                         updateContext env oldContext r (prepareContext env ps, [])
                     | _ \<Rightarrow> (None, (prepareContext env ps, [])))))"
proof -
  define X where "X = (if fullBuildRequired old req
                then createNewContext env (prepareContext env ps, [])
                else case (old, req) of
                       (Some oldContext, Some r) \<Rightarrow>
                         updateContext env oldContext r (prepareContext env ps, [])
                     | _ \<Rightarrow> (None, (prepareContext env ps, [])))"
  have eq: "InitContext env old req (ps, []) =
      orReturn X (\<lambda>b'. (None, (finishContext env (fst b'), snd b')))"
    using assms(1)
    by (simp add: X_def InitContext_def Let_def fullBuildRequired_def prepareContext_def
        finishContext_def split: option.splits)
  from assms(2) have "fst X = None"
    by (simp add: eq orReturn_finish(1))
  then show ?thesis
    unfolding eq X_def [symmetric] by (simp add: orReturn_finish(2))
qed

lemma updateContext_snapshot:
  assumes "fst (updateContext env old req (ps, [])) = None"
  shows "fst (snd (updateContext env old req (ps, [])))
           = fold (snapshotStep env old (\<lambda>k. classChanged k req)) buildOrder ps"
    and "classChanged c req \<Longrightarrow>
         rebuilt c env (snapshotBefore env old (\<lambda>k. classChanged k req) c ps)
           (fst (snd (updateContext env old req (ps, []))))"
proof -
  define b' where "b' = snd (updateContext env old req (ps, []))"
  from assms have run:
    "runSteps (map (buildStep env old (\<lambda>k. classChanged k req)) buildOrder)
       (ps, [CallUpdateContext]) = (None, b')"
    by (simp add: b'_def updateContext_runSteps updateStep_buildStep prod_eq_iff)
  from runSteps_build_snapshot [OF run]
  show "fst (snd (updateContext env old req (ps, [])))
           = fold (snapshotStep env old (\<lambda>k. classChanged k req)) buildOrder ps"
    by (simp add: b'_def)
  assume "classChanged c req"
  with build_rebuilt [OF run, of c]
  show "rebuilt c env (snapshotBefore env old (\<lambda>k. classChanged k req) c ps)
           (fst (snd (updateContext env old req (ps, []))))"
    by (simp add: b'_def)
qed

lemma createNewContext_snapshot:
  assumes "fst (createNewContext env (ps, [])) = None"
  shows "fst (snd (createNewContext env (ps, [])))
           = fold (\<lambda>k p. snd (runPass k env p)) buildOrder ps"
    and "rebuilt c env
           (fold (\<lambda>k p. snd (runPass k env p)) (takeWhile (\<lambda>k. k \<noteq> c) buildOrder) ps)
           (fst (snd (createNewContext env (ps, []))))"
proof -
  define b' where "b' = snd (createNewContext env (ps, []))"
  from assms have run:
    "runSteps (map (buildStep env ps (\<lambda>k. True)) buildOrder) (ps, [CallCreateNewContext])
       = (None, b')"
    by (simp add: b'_def createNewContext_runSteps call_buildStep [of env ps] prod_eq_iff)
  from runSteps_build_snapshot [OF run]
  show "fst (snd (createNewContext env (ps, [])))
           = fold (\<lambda>k p. snd (runPass k env p)) buildOrder ps"
    by (simp add: b'_def snapshotStep_full)
  from build_rebuilt [OF run, of c]
  show "rebuilt c env
           (fold (\<lambda>k p. snd (runPass k env p)) (takeWhile (\<lambda>k. k \<noteq> c) buildOrder) ps)
           (fst (snd (createNewContext env (ps, []))))"
    by (simp add: b'_def snapshotBefore_def snapshotStep_full)
qed

lemma InitContext_full_snapshot:
  assumes "\<not> initDone ps" and f: "fullBuildRequired old req"
    and ok: "fst (InitContext env old req (ps, [])) = None"
  shows "fst (snd (InitContext env old req (ps, [])))
              = finishContext env
                  (fold (\<lambda>k p. snd (runPass k env p)) buildOrder (prepareContext env ps))"
    and "rebuilt c env
                 (fold (\<lambda>k p. snd (runPass k env p)) (takeWhile (\<lambda>k. k \<noteq> c) buildOrder)
                    (prepareContext env ps))
                 (fst (snd (InitContext env old req (ps, []))))"
    and "initDone (fst (snd (InitContext env old req (ps, []))))"
proof -
  define built where "built = fst (snd (createNewContext env (prepareContext env ps, [])))"
  have "fst (InitContext env old req (ps, []))
          = fst (createNewContext env (prepareContext env ps, []))"
    unfolding InitContext_error [OF assms(1)] using f by (simp only: if_True)
  with ok have c: "fst (createNewContext env (prepareContext env ps, [])) = None"
    by simp
  have s: "fst (snd (InitContext env old req (ps, []))) = finishContext env built"
    unfolding InitContext_snapshot [OF assms(1) ok] built_def using f by (simp only: if_True)
  from createNewContext_snapshot(1) [OF c]
  have b: "built = fold (\<lambda>k p. snd (runPass k env p)) buildOrder (prepareContext env ps)"
    by (simp only: built_def)
  show "fst (snd (InitContext env old req (ps, [])))
              = finishContext env
                  (fold (\<lambda>k p. snd (runPass k env p)) buildOrder (prepareContext env ps))"
    by (simp only: s b)
  have same: "sameIndex c (fst (snd (InitContext env old req (ps, [])))) built"
    unfolding s by (rule sameIndex_finishContext)
  have "rebuilt c env
          (fold (\<lambda>k p. snd (runPass k env p)) (takeWhile (\<lambda>k. k \<noteq> c) buildOrder)
             (prepareContext env ps)) built"
    unfolding built_def by (rule createNewContext_snapshot(2) [OF c])
  from rebuilt_sameIndex [OF same this]
  show "rebuilt c env
                 (fold (\<lambda>k p. snd (runPass k env p)) (takeWhile (\<lambda>k. k \<noteq> c) buildOrder)
                    (prepareContext env ps))
                 (fst (snd (InitContext env old req (ps, []))))" .
  show "initDone (fst (snd (InitContext env old req (ps, []))))"
    unfolding s by (simp add: finishContext_def)
qed

lemma InitContext_incremental_Some:
  assumes "\<not> initDone ps" and nf: "\<not> fullBuildRequired (Some oldContext) (Some r)"
  shows "fst (InitContext env (Some oldContext) (Some r) (ps, []))
           = fst (updateContext env oldContext r (prepareContext env ps, []))"
    and "fst (InitContext env (Some oldContext) (Some r) (ps, [])) = None \<Longrightarrow>
         fst (snd (InitContext env (Some oldContext) (Some r) (ps, [])))
           = finishContext env
               (fst (snd (updateContext env oldContext r (prepareContext env ps, []))))"
proof -
  have sel: "(if fullBuildRequired (Some oldContext) (Some r)
              then createNewContext env (prepareContext env ps, [])
              else case (Some oldContext, Some r) of
                       (Some oldContext, Some r) \<Rightarrow>
                         updateContext env oldContext r (prepareContext env ps, [])
                     | _ \<Rightarrow> (None, (prepareContext env ps, [])))
             = updateContext env oldContext r (prepareContext env ps, [])"
    using nf by simp
  show "fst (InitContext env (Some oldContext) (Some r) (ps, []))
           = fst (updateContext env oldContext r (prepareContext env ps, []))"
    unfolding InitContext_error [OF assms(1)] sel ..
  assume ok: "fst (InitContext env (Some oldContext) (Some r) (ps, [])) = None"
  show "fst (snd (InitContext env (Some oldContext) (Some r) (ps, [])))
           = finishContext env
               (fst (snd (updateContext env oldContext r (prepareContext env ps, []))))"
    unfolding InitContext_snapshot [OF assms(1) ok] sel ..
qed

lemma fullBuildRequired_cases:
  assumes "\<not> fullBuildRequired old req"
  shows "\<exists>oldContext r. old = Some oldContext \<and> req = Some r"
  using assms by (cases old; cases req) (simp_all add: fullBuildRequired_def)

text \<open>
  C4. \<open>InitContext\<close> on a snapshot that is not initialised calls \<open>createNewContext\<close>
  exactly when the request is nil, the old snapshot is nil or not initialised, or the
  request names no config, and calls \<open>updateContext\<close> exactly otherwise. A full build
  calls the passes in the order service registry, virtual services, destination rules,
  authn, authz, envoy filters, gateways, sidecar scopes: the calls made are a prefix of
  that order (a pass that returns an error ends the build), and all of it when the
  build returns no error. The snapshot of a full build that returns no error is the
  prepared snapshot taken through the eight passes in that order and then finished:
  every index class holds what the environment yields for the snapshot left by the
  passes before it (sidecar scopes, last, for the snapshot that holds all the other
  indexes), and \<open>initDone\<close> is set. Otherwise the error and the snapshot are those of
  \<open>updateContext\<close> on the prepared snapshot, the old snapshot and the request.
\<close>

theorem InitContext_full_build:
  assumes "\<not> initDone ps"
  shows "(CallCreateNewContext \<in> set (snd (snd (InitContext env old req (ps, []))))
            \<longleftrightarrow> fullBuildRequired old req)
       \<and> (CallUpdateContext \<in> set (snd (snd (InitContext env old req (ps, []))))
            \<longleftrightarrow> \<not> fullBuildRequired old req)
       \<and> (fullBuildRequired old req \<longrightarrow>
            prefix (snd (snd (InitContext env old req (ps, [])))) fullBuildOrder
            \<and> (fst (InitContext env old req (ps, [])) = None \<longrightarrow>
                 snd (snd (InitContext env old req (ps, []))) = fullBuildOrder))
       \<and> fullBuildOrder =
           [CallCreateNewContext, CallInitServiceRegistry, CallInitVirtualServices,
            CallInitDestinationRules, CallInitAuthnPolicies, CallInitAuthorizationPolicies,
            CallInitEnvoyFilters, CallInitGateways, CallInitSidecarScopes]
       \<and> (fullBuildRequired old req \<longleftrightarrow>
            req = None \<or> old = None \<or> (\<exists>oldContext. old = Some oldContext \<and> \<not> initDone oldContext)
            \<or> (\<exists>r. req = Some r \<and> ConfigsUpdated r = {}))
       \<and> (fullBuildRequired old req \<and> fst (InitContext env old req (ps, [])) = None \<longrightarrow>
            fst (snd (InitContext env old req (ps, [])))
              = finishContext env
                  (fold (\<lambda>k p. snd (runPass k env p)) buildOrder (prepareContext env ps))
            \<and> rebuilt c env
                 (fold (\<lambda>k p. snd (runPass k env p)) (takeWhile (\<lambda>k. k \<noteq> c) buildOrder)
                    (prepareContext env ps))
                 (fst (snd (InitContext env old req (ps, []))))
            \<and> initDone (fst (snd (InitContext env old req (ps, [])))))
       \<and> (\<not> fullBuildRequired old req \<longrightarrow>
            (\<exists>oldContext r. old = Some oldContext \<and> req = Some r
               \<and> fst (InitContext env old req (ps, []))
                   = fst (updateContext env oldContext r (prepareContext env ps, []))
               \<and> (fst (InitContext env old req (ps, [])) = None \<longrightarrow>
                    fst (snd (InitContext env old req (ps, [])))
                      = finishContext env
                          (fst (snd (updateContext env oldContext r (prepareContext env ps, [])))))))"
proof -
  note log = InitContext_call_log [OF assms, of env old req]
  have full: "fullBuildRequired old req \<and> fst (InitContext env old req (ps, [])) = None \<longrightarrow>
            fst (snd (InitContext env old req (ps, [])))
              = finishContext env
                  (fold (\<lambda>k p. snd (runPass k env p)) buildOrder (prepareContext env ps))
            \<and> rebuilt c env
                 (fold (\<lambda>k p. snd (runPass k env p)) (takeWhile (\<lambda>k. k \<noteq> c) buildOrder)
                    (prepareContext env ps))
                 (fst (snd (InitContext env old req (ps, []))))
            \<and> initDone (fst (snd (InitContext env old req (ps, []))))"
  proof (intro impI, elim conjE, intro conjI)
    assume f: "fullBuildRequired old req" and ok: "fst (InitContext env old req (ps, [])) = None"
    show "fst (snd (InitContext env old req (ps, [])))
              = finishContext env
                  (fold (\<lambda>k p. snd (runPass k env p)) buildOrder (prepareContext env ps))"
      by (rule InitContext_full_snapshot(1) [OF assms f ok])
    show "rebuilt c env
                 (fold (\<lambda>k p. snd (runPass k env p)) (takeWhile (\<lambda>k. k \<noteq> c) buildOrder)
                    (prepareContext env ps))
                 (fst (snd (InitContext env old req (ps, []))))"
      by (rule InitContext_full_snapshot(2) [OF assms f ok])
    show "initDone (fst (snd (InitContext env old req (ps, []))))"
      by (rule InitContext_full_snapshot(3) [OF assms f ok])
  qed
  have incr: "\<not> fullBuildRequired old req \<longrightarrow>
            (\<exists>oldContext r. old = Some oldContext \<and> req = Some r
               \<and> fst (InitContext env old req (ps, []))
                   = fst (updateContext env oldContext r (prepareContext env ps, []))
               \<and> (fst (InitContext env old req (ps, [])) = None \<longrightarrow>
                    fst (snd (InitContext env old req (ps, [])))
                      = finishContext env
                          (fst (snd (updateContext env oldContext r (prepareContext env ps, []))))))"
  proof
    assume nf: "\<not> fullBuildRequired old req"
    from fullBuildRequired_cases [OF nf] obtain oldContext r where
      o: "old = Some oldContext" and r: "req = Some r"
      by blast
    have nf': "\<not> fullBuildRequired (Some oldContext) (Some r)"
      using nf unfolding o r .
    note i = InitContext_incremental_Some [OF assms nf', of env]
    show "\<exists>oldContext r. old = Some oldContext \<and> req = Some r
               \<and> fst (InitContext env old req (ps, []))
                   = fst (updateContext env oldContext r (prepareContext env ps, []))
               \<and> (fst (InitContext env old req (ps, [])) = None \<longrightarrow>
                    fst (snd (InitContext env old req (ps, [])))
                      = finishContext env
                          (fst (snd (updateContext env oldContext r (prepareContext env ps, [])))))"
      unfolding o r
      by (intro exI [of _ oldContext] exI [of _ r] conjI refl impI i(1) i(2))
  qed
  show ?thesis
    by (intro conjI log [THEN conjunct1] log [THEN conjunct2, THEN conjunct1]
        log [THEN conjunct2, THEN conjunct2, THEN conjunct1]
        log [THEN conjunct2, THEN conjunct2, THEN conjunct2, THEN conjunct1]
        log [THEN conjunct2, THEN conjunct2, THEN conjunct2, THEN conjunct2]
        full incr)
qed

theorem InitContext_full_build_witness:
  "\<not> initDone NewPushContext
   \<and> fullBuildRequired None None
   \<and> fst (InitContext (exEnv (Inr [exReviews])) None None (NewPushContext, [])) = None
   \<and> snd (snd (InitContext (exEnv (Inr [exReviews])) None None (NewPushContext, [])))
       = [CallCreateNewContext, CallInitServiceRegistry, CallInitVirtualServices,
          CallInitDestinationRules, CallInitAuthnPolicies, CallInitAuthorizationPolicies,
          CallInitEnvoyFilters, CallInitGateways, CallInitSidecarScopes]
   \<and> initDone (fst (snd (InitContext (exEnv (Inr [exReviews])) None None (NewPushContext, []))))
   \<and> sidecarsByNamespace
        (fst (snd (InitContext (exEnv (Inr [exReviews])) None None (NewPushContext, [])))) = 9
   \<and> publicVirtualServicesByGateway
        (fst (snd (InitContext (exEnv (Inr [exReviews])) None None (NewPushContext, [])))) = 3
   \<and> privateServicesByNamespace
        (fst (snd (InitContext (exEnv (Inr [exReviews])) None None (NewPushContext, []))))
        ''default'' = [exReviews]
   \<and> servicesExportedToNamespace
        (fst (snd (InitContext (exEnv (Inr [exReviews])) None None (NewPushContext, []))))
        ''bookinfo'' = [exReviews]
   \<and> \<not> fullBuildRequired (Some exOld) (Some (exPushRequest Sidecar))
   \<and> CallUpdateContext
       \<in> set (snd (snd (InitContext (exEnv (Inr [exReviews])) (Some exOld)
                          (Some (exPushRequest Sidecar)) (NewPushContext, []))))"
proof -
  define snap where
    "snap = fst (snd (InitContext (exEnv (Inr [exReviews])) None None (NewPushContext, [])))"
  have new: "\<not> initDone NewPushContext" by (simp add: NewPushContext_def)
  have ok: "fst (InitContext (exEnv (Inr [exReviews])) None None (NewPushContext, [])) = None"
    by (simp add: InitContext_def new Let_def createNewContext_def orReturn_def call_def
        initServiceRegistry_def initVirtualServices_def initDestinationRules_def
        initAuthnPolicies_def initAuthorizationPolicies_def initEnvoyFilters_def
        initGateways_def initSidecarScopes_def exEnv_def)
  have full: "fullBuildRequired None None" by (simp add: fullBuildRequired_def)
  have incr: "\<not> fullBuildRequired (Some exOld) (Some (exPushRequest Sidecar))"
    by (simp add: fullBuildRequired_def exOld_def exPushRequest_def)
  note t = InitContext_full_build [OF new, of "exEnv (Inr [exReviews])" None None]
  note t' = InitContext_full_build [OF new, of "exEnv (Inr [exReviews])" "Some exOld"
      "Some (exPushRequest Sidecar)" ServicesIndex]
  note built = t [THEN conjunct2, THEN conjunct2, THEN conjunct2, THEN conjunct2,
      THEN conjunct2, THEN conjunct1, THEN mp, OF conjI [OF full ok], folded snap_def]
  from t [of ServicesIndex, THEN conjunct2, THEN conjunct2, THEN conjunct1, THEN mp, OF full] ok
    t [of ServicesIndex, THEN conjunct2, THEN conjunct2, THEN conjunct2, THEN conjunct1]
  have log: "snd (snd (InitContext (exEnv (Inr [exReviews])) None None (NewPushContext, [])))
       = [CallCreateNewContext, CallInitServiceRegistry, CallInitVirtualServices,
          CallInitDestinationRules, CallInitAuthnPolicies, CallInitAuthorizationPolicies,
          CallInitEnvoyFilters, CallInitGateways, CallInitSidecarScopes]"
    by simp
  have inited: "initDone snap"
    by (rule built [of ServicesIndex, THEN conjunct2, THEN conjunct2])
  have "listSidecars (exEnv (Inr [exReviews])) p = Inr 9" for p
    by (simp add: exEnv_def)
  with built [of SidecarScopesIndex, THEN conjunct2, THEN conjunct1]
  have sc: "sidecarsByNamespace snap = 9" by simp
  have "listVirtualServices (exEnv (Inr [exReviews])) p = Inr (1, 2, 3)" for p
    by (simp add: exEnv_def)
  with built [of VirtualServicesIndex, THEN conjunct2, THEN conjunct1]
  have vs: "publicVirtualServicesByGateway snap = 3" by simp
  have before: "fold (\<lambda>k p. snd (runPass k (exEnv (Inr [exReviews])) p))
                  (takeWhile (\<lambda>k. k \<noteq> ServicesIndex) buildOrder)
                  (prepareContext (exEnv (Inr [exReviews])) NewPushContext)
                = prepareContext (exEnv (Inr [exReviews])) NewPushContext"
    by (simp add: buildOrder_def)
  from built [of ServicesIndex, THEN conjunct2, THEN conjunct1]
  have svc: "privateServicesByNamespace snap ''default'' = [exReviews]"
    "servicesExportedToNamespace snap ''bookinfo'' = [exReviews]"
    unfolding before
    by (simp_all add: exEnv_def sortServicesByCreationTime_def registerService_def
        prepareContext_def initDefaultExportMaps_def defaultExportMap_def NewPushContext_def
        exReviews_def exMesh_def indexService_def Let_def visibility_Private_def visibility_Public_def
        visibility_None_def)
  from t' [THEN conjunct2, THEN conjunct1] incr
  have upd: "CallUpdateContext
       \<in> set (snd (snd (InitContext (exEnv (Inr [exReviews])) (Some exOld)
                          (Some (exPushRequest Sidecar)) (NewPushContext, []))))"
    by simp
  show ?thesis
    by (intro conjI new full ok log inited [unfolded snap_def] sc [unfolded snap_def]
        vs [unfolded snap_def] svc [unfolded snap_def] incr upd)
qed

text \<open>
  C5, as amended. When \<open>updateContext\<close> returns no error: \<open>initSidecarScopes\<close> is called
  exactly when the request marks services, virtual services, destination rules or
  sidecars as changed, and then \<open>sidecarsByNamespace\<close> holds the scopes that the
  environment yields for the snapshot left by the seven steps before; otherwise
  \<open>sidecarsByNamespace\<close> is that of the old snapshot. For every index class, its pass
  is called exactly when the request marks the class as changed, and then the class
  holds what the environment yields for the snapshot its pass received; otherwise the
  fields of the class are those of the old snapshot.
\<close>

theorem updateContext_incremental:
  assumes "fst (updateContext env old req (ps, [])) = None"
  shows "(CallInitSidecarScopes \<in> set (snd (snd (updateContext env old req (ps, []))))
            \<longleftrightarrow> servicesChanged req \<or> virtualServicesChanged req
                \<or> destinationRulesChanged req \<or> sidecarsChanged req)
       \<and> (CallInitSidecarScopes \<in> set (snd (snd (updateContext env old req (ps, []))))
            \<longrightarrow> listSidecars env
                   (snapshotBefore env old (\<lambda>k. classChanged k req) SidecarScopesIndex ps)
                 = Inr (sidecarsByNamespace (fst (snd (updateContext env old req (ps, []))))))
       \<and> (CallInitSidecarScopes \<notin> set (snd (snd (updateContext env old req (ps, []))))
            \<longrightarrow> sidecarsByNamespace (fst (snd (updateContext env old req (ps, []))))
                 = sidecarsByNamespace old)
       \<and> (passOf c \<in> set (snd (snd (updateContext env old req (ps, []))))
            \<longleftrightarrow> classChanged c req)
       \<and> (classChanged c req
            \<longrightarrow> rebuilt c env (snapshotBefore env old (\<lambda>k. classChanged k req) c ps)
                  (fst (snd (updateContext env old req (ps, [])))))
       \<and> (\<not> classChanged c req
            \<longrightarrow> sameIndex c (fst (snd (updateContext env old req (ps, [])))) old)
       \<and> fst (snd (updateContext env old req (ps, [])))
           = fold (snapshotStep env old (\<lambda>k. classChanged k req)) buildOrder ps"
proof -
  note log = updateContext_call_log [OF assms]
  from log [of SidecarScopesIndex]
  have sc: "CallInitSidecarScopes \<in> set (snd (snd (updateContext env old req (ps, []))))
              \<longleftrightarrow> classChanged SidecarScopesIndex req"
    by simp
  from updateContext_snapshot(2) [OF assms, of SidecarScopesIndex]
  have "classChanged SidecarScopesIndex req \<Longrightarrow>
        listSidecars env
          (snapshotBefore env old (\<lambda>k. classChanged k req) SidecarScopesIndex ps)
        = Inr (sidecarsByNamespace (fst (snd (updateContext env old req (ps, [])))))"
    by simp
  with sc log [of c] updateContext_snapshot(1) [OF assms] updateContext_snapshot(2) [OF assms, of c]
  show ?thesis by blast
qed

theorem updateContext_incremental_witness:
  "fst (updateContext (exEnv (Inr [])) exOld (exPushRequest Sidecar) (NewPushContext, [])) = None
   \<and> sidecarsChanged (exPushRequest Sidecar)
   \<and> classChanged SidecarScopesIndex (exPushRequest Sidecar)
   \<and> CallInitSidecarScopes
       \<in> set (snd (snd (updateContext (exEnv (Inr [])) exOld (exPushRequest Sidecar) (NewPushContext, []))))
   \<and> sidecarsByNamespace
        (fst (snd (updateContext (exEnv (Inr [])) exOld (exPushRequest Sidecar) (NewPushContext, []))))
       = 9
   \<and> sidecarsByNamespace exOld = 19
   \<and> \<not> classChanged GatewaysIndex (exPushRequest Sidecar)
   \<and> passOf GatewaysIndex
       \<notin> set (snd (snd (updateContext (exEnv (Inr [])) exOld (exPushRequest Sidecar) (NewPushContext, []))))
   \<and> sameIndex GatewaysIndex
        (fst (snd (updateContext (exEnv (Inr [])) exOld (exPushRequest Sidecar) (NewPushContext, []))))
        exOld"
proof -
  have ok: "fst (updateContext (exEnv (Inr [])) exOld (exPushRequest Sidecar) (NewPushContext, [])) = None"
    by (simp add: updateContext_def exPushRequest_def servicesChanged_def virtualServicesChanged_def
        serviceApisChanged_def destinationRulesChanged_def authnChanged_def authzChanged_def
        envoyFiltersChanged_def gatewayChanged_def sidecarsChanged_def orReturn_def reuse_def
        call_def initSidecarScopes_def exEnv_def)
  have flags: "sidecarsChanged (exPushRequest Sidecar)"
    "\<not> classChanged GatewaysIndex (exPushRequest Sidecar)"
    "classChanged SidecarScopesIndex (exPushRequest Sidecar)"
    by (simp_all add: exPushRequest_def sidecarsChanged_def gatewayChanged_def serviceApisChanged_def)
  have env: "listSidecars (exEnv (Inr [])) p = Inr 9" for p
    by (simp add: exEnv_def)
  have old: "sidecarsByNamespace exOld = 19"
    by (simp add: exOld_def)
  note t = updateContext_incremental [OF ok]
  from t [of SidecarScopesIndex] flags
  have called: "CallInitSidecarScopes
       \<in> set (snd (snd (updateContext (exEnv (Inr [])) exOld (exPushRequest Sidecar) (NewPushContext, []))))"
    by simp
  with t [of SidecarScopesIndex]
  have "listSidecars (exEnv (Inr []))
          (snapshotBefore (exEnv (Inr [])) exOld (\<lambda>k. classChanged k (exPushRequest Sidecar))
             SidecarScopesIndex NewPushContext)
        = Inr (sidecarsByNamespace
        (fst (snd (updateContext (exEnv (Inr [])) exOld (exPushRequest Sidecar) (NewPushContext, [])))))"
    by blast
  then have built: "sidecarsByNamespace
        (fst (snd (updateContext (exEnv (Inr [])) exOld (exPushRequest Sidecar) (NewPushContext, []))))
       = 9"
    by (simp add: env)
  from t [of GatewaysIndex] flags
  have gw: "passOf GatewaysIndex
       \<notin> set (snd (snd (updateContext (exEnv (Inr [])) exOld (exPushRequest Sidecar) (NewPushContext, []))))"
    "sameIndex GatewaysIndex
        (fst (snd (updateContext (exEnv (Inr [])) exOld (exPushRequest Sidecar) (NewPushContext, []))))
        exOld"
    by blast+
  show ?thesis
    by (intro conjI ok flags called built old gw)
qed

text \<open>
  C5 as stated fails when a pass returns an error. The request names a service entry,
  so services count as changed; the store fails to list the services, so
  \<open>initServiceRegistry\<close> returns the error and \<open>updateContext\<close> returns it at once:
  sidecar scopes are neither rebuilt nor taken from the old snapshot, and the gateway
  index, whose kinds the request does not name, is not taken from the old snapshot
  either.
\<close>

theorem updateContext_incremental_counterexample:
  "servicesChanged (exPushRequest ServiceEntry)
   \<and> fst (updateContext (exEnv (Inl (Error ''store unavailable''))) exOld
            (exPushRequest ServiceEntry) (NewPushContext, []))
       = Some (Error ''store unavailable'')
   \<and> CallInitSidecarScopes
       \<notin> set (snd (snd (updateContext (exEnv (Inl (Error ''store unavailable''))) exOld
                          (exPushRequest ServiceEntry) (NewPushContext, []))))
   \<and> sidecarsByNamespace
        (fst (snd (updateContext (exEnv (Inl (Error ''store unavailable''))) exOld
                     (exPushRequest ServiceEntry) (NewPushContext, []))))
       \<noteq> sidecarsByNamespace exOld
   \<and> \<not> classChanged GatewaysIndex (exPushRequest ServiceEntry)
   \<and> \<not> sameIndex GatewaysIndex
        (fst (snd (updateContext (exEnv (Inl (Error ''store unavailable''))) exOld
                     (exPushRequest ServiceEntry) (NewPushContext, []))))
        exOld"
  by (simp add: updateContext_def exPushRequest_def servicesChanged_def gatewayChanged_def
      serviceApisChanged_def orReturn_def call_def initServiceRegistry_def exEnv_def
      exOld_def NewPushContext_def)

end
